theory Spec2Isabelle
  imports Main "HOL-Library.Word" "HOL-Library.AList"
begin

unbundle bit_operations_syntax

section \<open>Credit ledger (src/server/services/credit-manager.ts, src/shared/schema.ts)\<close>

subsection \<open>Schema\<close>

text \<open>
  \<^verbatim>\<open>CREDIT_COSTS\<close> of schema.ts and its key type \<^verbatim>\<open>CreditType\<close>.
\<close>

datatype CreditType = chat | imageGeneration | videoAnalysis | webScraping | deepSearch | learning

fun CREDIT_COSTS :: "CreditType \<Rightarrow> int" where
  "CREDIT_COSTS chat = 100"
| "CREDIT_COSTS imageGeneration = 200"
| "CREDIT_COSTS videoAnalysis = 300"
| "CREDIT_COSTS webScraping = 150"
| "CREDIT_COSTS deepSearch = 200"
| "CREDIT_COSTS learning = 100"

text \<open>
  The \<^verbatim>\<open>type\<close> column of \<^verbatim>\<open>credit_transactions\<close>: a feature name or
  \<^verbatim>\<open>'admin_adjustment'\<close>.
\<close>

datatype txn_type = Feature CreditType | admin_adjustment

text \<open>
  The \<^verbatim>\<open>description\<close> column. The template strings of the source are kept as
  constructors carrying the interpolated values.
\<close>

datatype txn_description = Text string | Used_credits_for int CreditType

record creditTransaction =
  userId :: string
  messageId :: "string option"
  type :: txn_type
  amount :: int
  balanceAfter :: int
  description :: txn_description

text \<open>
  The database as the credit manager sees it: the \<^verbatim>\<open>credits\<close> column of
  \<^verbatim>\<open>users\<close> by user id, the rows of \<^verbatim>\<open>credit_transactions\<close> in creation
  order, and whether the connection answers (\<open>up\<close>); a query on a connection that
  is down throws. All three numeric columns are \<^verbatim>\<open>integer(...)\<close>, PostgreSQL's
  32-bit integer: writing a value outside its range throws as well.
\<close>

record db =
  users :: "string \<rightharpoonup> int"
  creditTransactions :: "creditTransaction list"
  up :: bool

datatype db_error = ConnectionError | IntegerOutOfRange

definition int4 :: "int \<Rightarrow> bool" where
  "int4 v \<longleftrightarrow> - 2147483648 \<le> v \<and> v \<le> 2147483647"

text \<open>\<^verbatim>\<open>db.select({credits}).from(users).where(eq(users.id, userId))\<close>\<close>

definition select_credits :: "db \<Rightarrow> string \<Rightarrow> db_error + int option" where
  "select_credits d uid = (if \<not> up d then Inl ConnectionError else Inr (users d uid))"

text \<open>
  \<^verbatim>\<open>db.update(users).set({credits, updatedAt}).where(eq(users.id, userId))\<close>: the
  row is changed where it exists; no row matching is not an error.
\<close>

definition update_credits :: "db \<Rightarrow> string \<Rightarrow> int \<Rightarrow> db_error + db" where
  "update_credits d uid v =
     (if \<not> up d then Inl ConnectionError
      else if \<not> int4 v then Inl IntegerOutOfRange
      else Inr (case users d uid of
                  None \<Rightarrow> d
                | Some _ \<Rightarrow> d\<lparr>users := (users d)(uid \<mapsto> v)\<rparr>))"

text \<open>\<^verbatim>\<open>db.insert(creditTransactions).values({...})\<close>\<close>

definition insert_transaction :: "db \<Rightarrow> creditTransaction \<Rightarrow> db_error + db" where
  "insert_transaction d t =
     (if \<not> up d then Inl ConnectionError
      else if \<not> int4 (amount t) \<or> \<not> int4 (balanceAfter t) then Inl IntegerOutOfRange
      else Inr (d\<lparr>creditTransactions := creditTransactions d @ [t]\<rparr>))"

subsection \<open>CreditManager\<close>

text \<open>
  \<^verbatim>\<open>getUserCredits\<close>: \<^verbatim>\<open>user?.credits || 0\<close>, and \<^verbatim>\<open>0\<close> from the
  \<^verbatim>\<open>catch\<close>. (A stored \<open>0\<close> is falsy and gives \<open>0\<close> too.)
\<close>

definition getUserCredits :: "db \<Rightarrow> string \<Rightarrow> int" where
  "getUserCredits d uid =
     (case select_credits d uid of
        Inl _ \<Rightarrow> 0
      | Inr None \<Rightarrow> 0
      | Inr (Some c) \<Rightarrow> (if c = 0 then 0 else c))"

record afford =
  canAfford_flag :: bool
  currentCredits :: int
  required :: int

definition canAfford :: "db \<Rightarrow> string \<Rightarrow> CreditType \<Rightarrow> afford" where
  "canAfford d uid creditType =
     (let currentCredits = getUserCredits d uid;
          required = CREDIT_COSTS creditType
      in \<lparr>canAfford_flag = (currentCredits \<ge> required),
          currentCredits = currentCredits,
          required = required\<rparr>)"

text \<open>The user-facing messages of the results, with their interpolated values.\<close>

datatype message =
    Insufficient int int
  | Used int int
  | DeductError
  | Added int int
  | AddError
  | SetTo int int
  | SetError

record result =
  success :: bool
  newBalance :: int
  message :: message

text \<open>
  \<^verbatim>\<open>customAmount || CREDIT_COSTS[creditType]\<close>: an absent or zero custom amount
  falls back to the table.
\<close>

definition deduct_amount :: "CreditType \<Rightarrow> int option \<Rightarrow> int" where
  "deduct_amount creditType customAmount =
     (case customAmount of
        None \<Rightarrow> CREDIT_COSTS creditType
      | Some a \<Rightarrow> (if a = 0 then CREDIT_COSTS creditType else a))"

text \<open>\<^verbatim>\<open>description || `Used ${amount} credits for ${creditType}`\<close>\<close>

definition deduct_description :: "string option \<Rightarrow> int \<Rightarrow> CreditType \<Rightarrow> txn_description" where
  "deduct_description descr a creditType =
     (case descr of
        None \<Rightarrow> Used_credits_for a creditType
      | Some s \<Rightarrow> (if s = [] then Used_credits_for a creditType else Text s))"

definition deductCredits ::
  "db \<Rightarrow> string \<Rightarrow> CreditType \<Rightarrow> string option \<Rightarrow> int option \<Rightarrow> string option \<Rightarrow> result \<times> db" where
  "deductCredits d uid creditType msgId customAmount descr =
     (let a = deduct_amount creditType customAmount;
          currentCredits = getUserCredits d uid
      in if currentCredits < a
         then (\<lparr>success = False, newBalance = currentCredits,
                 message = Insufficient a currentCredits\<rparr>, d)
         else
           let nb = currentCredits - a in
           case update_credits d uid nb of
             Inl _ \<Rightarrow> (\<lparr>success = False, newBalance = 0, message = DeductError\<rparr>, d)
           | Inr d1 \<Rightarrow>
               (case insert_transaction d1
                       \<lparr>userId = uid, messageId = msgId, type = Feature creditType,
                        amount = - a, balanceAfter = nb,
                        description = deduct_description descr a creditType\<rparr> of
                  Inl _ \<Rightarrow> (\<lparr>success = False, newBalance = 0, message = DeductError\<rparr>, d1)
                | Inr d2 \<Rightarrow> (\<lparr>success = True, newBalance = nb, message = Used a nb\<rparr>, d2)))"

definition addCredits :: "db \<Rightarrow> string \<Rightarrow> int \<Rightarrow> string \<Rightarrow> result \<times> db" where
  "addCredits d uid a descr =
     (let currentCredits = getUserCredits d uid;
          nb = currentCredits + a
      in case update_credits d uid nb of
           Inl _ \<Rightarrow> (\<lparr>success = False, newBalance = 0, message = AddError\<rparr>, d)
         | Inr d1 \<Rightarrow>
             (case insert_transaction d1
                     \<lparr>userId = uid, messageId = None, type = admin_adjustment,
                      amount = a, balanceAfter = nb, description = Text descr\<rparr> of
                Inl _ \<Rightarrow> (\<lparr>success = False, newBalance = 0, message = AddError\<rparr>, d1)
              | Inr d2 \<Rightarrow> (\<lparr>success = True, newBalance = nb, message = Added a nb\<rparr>, d2)))"

definition setCredits :: "db \<Rightarrow> string \<Rightarrow> int \<Rightarrow> string \<Rightarrow> result \<times> db" where
  "setCredits d uid newAmount descr =
     (let currentCredits = getUserCredits d uid;
          difference = newAmount - currentCredits
      in case update_credits d uid newAmount of
           Inl _ \<Rightarrow> (\<lparr>success = False, newBalance = 0, message = SetError\<rparr>, d)
         | Inr d1 \<Rightarrow>
             (case insert_transaction d1
                     \<lparr>userId = uid, messageId = None, type = admin_adjustment,
                      amount = difference, balanceAfter = newAmount,
                      description = Text descr\<rparr> of
                Inl _ \<Rightarrow> (\<lparr>success = False, newBalance = 0, message = SetError\<rparr>, d1)
              | Inr d2 \<Rightarrow>
                  (\<lparr>success = True, newBalance = newAmount,
                    message = SetTo newAmount difference\<rparr>, d2)))"

subsection \<open>Sequences of ledger operations\<close>





subsection \<open>Concurrent debits\<close>

text \<open>
  \<^verbatim>\<open>deductCredits\<close> is an \<^verbatim>\<open>async\<close> function: it runs to its next
  \<^verbatim>\<open>await\<close> and gives control back, so two calls in flight interleave at their three
  database round trips (the select inside \<^verbatim>\<open>getUserCredits\<close>, the update, the
  insert). No transaction or lock spans them. A call in flight is at one of these points:
  \<open>Selecting\<close> (the select is outstanding), \<open>Updating nb\<close> (the sufficiency check
  has passed and the update to \<open>nb\<close> is outstanding), \<open>Inserting nb\<close>, or it has
  returned its result.
\<close>

record debit_call =
  c_userId :: string
  c_creditType :: CreditType
  c_messageId :: "string option"
  c_customAmount :: "int option"
  c_description :: "string option"

datatype debit_pc = Selecting | Updating int | Inserting int | Returned result

fun debit_step :: "debit_call \<Rightarrow> debit_pc \<Rightarrow> db \<Rightarrow> debit_pc \<times> db" where
  "debit_step c Selecting d =
     (let a = deduct_amount (c_creditType c) (c_customAmount c);
          currentCredits = getUserCredits d (c_userId c)
      in if currentCredits < a
         then (Returned \<lparr>success = False, newBalance = currentCredits,
                          message = Insufficient a currentCredits\<rparr>, d)
         else (Updating (currentCredits - a), d))"
| "debit_step c (Updating nb) d =
     (case update_credits d (c_userId c) nb of
        Inl _ \<Rightarrow> (Returned \<lparr>success = False, newBalance = 0, message = DeductError\<rparr>, d)
      | Inr d1 \<Rightarrow> (Inserting nb, d1))"
| "debit_step c (Inserting nb) d =
     (let a = deduct_amount (c_creditType c) (c_customAmount c) in
      case insert_transaction d
             \<lparr>userId = c_userId c, messageId = c_messageId c,
              type = Feature (c_creditType c), amount = - a, balanceAfter = nb,
              description = deduct_description (c_description c) a (c_creditType c)\<rparr> of
        Inl _ \<Rightarrow> (Returned \<lparr>success = False, newBalance = 0, message = DeductError\<rparr>, d)
      | Inr d2 \<Rightarrow> (Returned \<lparr>success = True, newBalance = nb, message = Used a nb\<rparr>, d2))"
| "debit_step c (Returned r) d = (Returned r, d)"

text \<open>
  Two calls in flight and a schedule: each entry says which call's outstanding round trip
  the database serves next (\<open>False\<close> the first call, \<open>True\<close> the second).
\<close>

fun run_schedule ::
  "debit_call \<Rightarrow> debit_call \<Rightarrow> bool list \<Rightarrow> debit_pc \<times> debit_pc \<times> db \<Rightarrow> debit_pc \<times> debit_pc \<times> db" where
  "run_schedule c1 c2 [] s = s"
| "run_schedule c1 c2 (b # bs) (p1, p2, d) =
     (if b then (let (p2', d') = debit_step c2 p2 d in run_schedule c1 c2 bs (p1, p2', d'))
      else (let (p1', d') = debit_step c1 p1 d in run_schedule c1 c2 bs (p1', p2, d')))"

definition concurrent_debits ::
  "debit_call \<Rightarrow> debit_call \<Rightarrow> bool list \<Rightarrow> db \<Rightarrow> debit_pc \<times> debit_pc \<times> db" where
  "concurrent_debits c1 c2 sched d = run_schedule c1 c2 sched (Selecting, Selecting, d)"

text \<open>A serial schedule: all three round trips of one call, then the other's.\<close>

definition serial :: "bool \<Rightarrow> bool list" where
  "serial first = replicate 3 first @ replicate 3 (\<not> first)"

definition succeeded :: "debit_pc \<Rightarrow> bool" where
  "succeeded p = (case p of Returned r \<Rightarrow> success r | _ \<Rightarrow> False)"

definition insufficient :: "debit_pc \<Rightarrow> bool" where
  "insufficient p =
     (case p of
        Returned r \<Rightarrow> (case message r of Insufficient _ _ \<Rightarrow> \<not> success r | _ \<Rightarrow> False)
      | _ \<Rightarrow> False)"

section \<open>Provider pool (src/server/services/gemini-manager.ts)\<close>

subsection \<open>Credentials\<close>

datatype api_status = active | failed | quota_exceeded | disabled

record quotaUsage =
  q_requests :: nat
  q_tokens :: nat
  q_images :: nat
  q_videos :: nat
  q_resetTime :: int

text \<open>
  \<^verbatim>\<open>GeminiAPIConfig\<close>. Dates are milliseconds since the epoch. The field
  \<^verbatim>\<open>id\<close> is written \<open>id'\<close>.
\<close>

record GeminiAPIConfig =
  id' :: string
  key :: string
  priority :: int
  name :: string
  status :: api_status
  lastUsed :: "int option"
  requestCount :: nat
  failureCount :: nat
  lastError :: "string option"
  maxRequestsPerMinute :: "nat option"
  quotaUsage :: quotaUsage

text \<open>
  \<^verbatim>\<open>QUOTA_RATES\<close> and \<^verbatim>\<open>FeatureType = keyof typeof QUOTA_RATES\<close>; its keys are those
  of \<^verbatim>\<open>CREDIT_COSTS\<close>.
\<close>

type_synonym FeatureType = CreditType

datatype rate_priority = high | medium | low

record quota_rate =
  r_requests :: nat
  r_tokens :: nat
  r_images :: "nat option"
  r_videos :: "nat option"
  r_priority :: rate_priority

fun QUOTA_RATES :: "FeatureType \<Rightarrow> quota_rate" where
  "QUOTA_RATES chat =
     \<lparr>r_requests = 1, r_tokens = 100, r_images = None, r_videos = None, r_priority = medium\<rparr>"
| "QUOTA_RATES imageGeneration =
     \<lparr>r_requests = 1, r_tokens = 200, r_images = Some 1, r_videos = None, r_priority = high\<rparr>"
| "QUOTA_RATES videoAnalysis =
     \<lparr>r_requests = 1, r_tokens = 300, r_images = None, r_videos = Some 1, r_priority = high\<rparr>"
| "QUOTA_RATES webScraping =
     \<lparr>r_requests = 1, r_tokens = 150, r_images = None, r_videos = None, r_priority = medium\<rparr>"
| "QUOTA_RATES deepSearch =
     \<lparr>r_requests = 1, r_tokens = 200, r_images = None, r_videos = None, r_priority = medium\<rparr>"
| "QUOTA_RATES learning =
     \<lparr>r_requests = 1, r_tokens = 100, r_images = None, r_videos = None, r_priority = low\<rparr>"

subsection \<open>The manager's state\<close>

record tracker =
  requests :: nat
  resetTime :: int

text \<open>
  The two callbacks \<^verbatim>\<open>handleAPIFailure\<close> hands to \<^verbatim>\<open>setTimeout\<close>, and a pending
  timer: when it is due, the credential whose object the callback closes over, and which
  callback it is.
\<close>

datatype timer_kind = QuotaReset | FailedReset

record timer =
  due :: int
  target :: string
  kind :: timer_kind

text \<open>
  \<^verbatim>\<open>apis\<close> is a JavaScript \<^verbatim>\<open>Map\<close> from \<^verbatim>\<open>config.id\<close> to the config: its values
  in insertion order, found by their \<open>id'\<close>. \<^verbatim>\<open>clients\<close> maps an id to the client
  pair built for it (here: the key it was built with).
\<close>

record manager =
  apis :: "GeminiAPIConfig list"
  clients :: "string \<rightharpoonup> string"
  rateLimitTracker :: "string \<rightharpoonup> tracker"
  timers :: "timer list"

definition new_manager :: manager where
  "new_manager = \<lparr>apis = [], clients = Map.empty, rateLimitTracker = Map.empty, timers = []\<rparr>"

text \<open>\<^verbatim>\<open>this.apis.get(id)\<close>\<close>

definition apis_get :: "GeminiAPIConfig list \<Rightarrow> string \<Rightarrow> GeminiAPIConfig option" where
  "apis_get as i = find (\<lambda>a. id' a = i) as"

text \<open>
  \<^verbatim>\<open>this.apis.set(config.id, config)\<close>: an id already present keeps its place and
  gets the new value, a new id goes to the end.
\<close>

fun apis_set :: "GeminiAPIConfig \<Rightarrow> GeminiAPIConfig list \<Rightarrow> GeminiAPIConfig list" where
  "apis_set c [] = [c]"
| "apis_set c (a # as) = (if id' a = id' c then c # as else a # apis_set c as)"

text \<open>An assignment to fields of the object stored under an id.\<close>

definition apis_modify ::
  "string \<Rightarrow> (GeminiAPIConfig \<Rightarrow> GeminiAPIConfig) \<Rightarrow> GeminiAPIConfig list \<Rightarrow> GeminiAPIConfig list" where
  "apis_modify i f as = map (\<lambda>a. if id' a = i then f a else a) as"

text \<open>
  \<^verbatim>\<open>String.prototype.startsWith\<close> and \<^verbatim>\<open>includes\<close> (written
  \<open>includes_js\<close>).
\<close>

definition startsWith :: "string \<Rightarrow> string \<Rightarrow> bool" where
  "startsWith s p \<longleftrightarrow> take (length p) s = p"

fun includes_js :: "string \<Rightarrow> string \<Rightarrow> bool" where
  "includes_js [] p \<longleftrightarrow> p = []"
| "includes_js (c # cs) p \<longleftrightarrow> startsWith (c # cs) p \<or> includes_js cs p"

subsection \<open>Registration\<close>

text \<open>
  \<^verbatim>\<open>addAPI\<close>. Whether the two client constructors return or throw is the
  environment's: \<open>thrown\<close> is \<open>None\<close> when they return and the thrown error's
  message when one throws. Replacing the object stored under an id orphans the old object;
  a pending timer closes over the old object and can no longer touch the registry, so it
  is dropped.
\<close>

definition addAPI :: "string option \<Rightarrow> GeminiAPIConfig \<Rightarrow> manager \<Rightarrow> manager" where
  "addAPI thrown config m =
     (case find (\<lambda>api. key api = key config) (apis m) of
        Some _ \<Rightarrow> m
      | None \<Rightarrow>
          let m1 = m\<lparr>apis := apis_set config (apis m),
                     timers := filter (\<lambda>t. target t \<noteq> id' config) (timers m)\<rparr>
          in case thrown of
               None \<Rightarrow> m1\<lparr>clients := (clients m1)(id' config \<mapsto> key config)\<rparr>
             | Some msg \<Rightarrow>
                 m1\<lparr>apis := apis_modify (id' config)
                               (\<lambda>c. c\<lparr>status := failed, lastError := Some msg\<rparr>) (apis m1)\<rparr>)"

text \<open>
  \<^verbatim>\<open>addAPIAtRuntime(keyName, apiKey, customName)\<close>; \<open>now\<close> is what
  \<^verbatim>\<open>new Date()\<close> reads.
\<close>

definition addAPIAtRuntime ::
  "string option \<Rightarrow> string \<Rightarrow> string \<Rightarrow> string option \<Rightarrow> int \<Rightarrow> manager \<Rightarrow> bool \<times> manager" where
  "addAPIAtRuntime thrown keyName apiKey customName now m =
     (if \<not> startsWith apiKey ''AIza'' then (False, m)
      else
        let config =
              \<lparr>id' = ''runtime_'' @ keyName,
               key = apiKey,
               priority = int (length (apis m)) + 1,
               name = (case customName of
                         None \<Rightarrow> ''Gemini API ('' @ keyName @ '')''
                       | Some n \<Rightarrow> (if n = [] then ''Gemini API ('' @ keyName @ '')'' else n)),
               status = active,
               lastUsed = None,
               requestCount = 0,
               failureCount = 0,
               lastError = None,
               maxRequestsPerMinute = Some 60,
               quotaUsage = \<lparr>q_requests = 0, q_tokens = 0, q_images = 0, q_videos = 0,
                              q_resetTime = now\<rparr>\<rparr>
        in (True, addAPI thrown config m))"

text \<open>\<^verbatim>\<open>getAllAPIs\<close>, the registry's listing.\<close>

definition getAllAPIs :: "manager \<Rightarrow> GeminiAPIConfig list" where
  "getAllAPIs m = apis m"

definition updateAPIStatus :: "string \<Rightarrow> api_status \<Rightarrow> manager \<Rightarrow> manager" where
  "updateAPIStatus apiId st m =
     m\<lparr>apis := apis_modify apiId
                  (\<lambda>api. if st = active
                          then api\<lparr>status := st, failureCount := 0, lastError := None\<rparr>
                          else api\<lparr>status := st\<rparr>) (apis m)\<rparr>"

text \<open>A sequence of registration calls, each with what its environment does.\<close>

datatype register_call =
    AddAPI "string option" GeminiAPIConfig
  | AddAPIAtRuntime "string option" string string "string option" int

fun register :: "register_call \<Rightarrow> manager \<Rightarrow> manager" where
  "register (AddAPI thrown config) m = addAPI thrown config m"
| "register (AddAPIAtRuntime thrown keyName apiKey customName now) m =
     snd (addAPIAtRuntime thrown keyName apiKey customName now m)"

subsection \<open>Rate limiting\<close>

text \<open>\<^verbatim>\<open>api?.maxRequestsPerMinute || 60\<close>\<close>

definition max_rpm :: "GeminiAPIConfig option \<Rightarrow> nat" where
  "max_rpm api =
     (case api of
        None \<Rightarrow> 60
      | Some a \<Rightarrow> (case maxRequestsPerMinute a of
                     None \<Rightarrow> 60
                   | Some n \<Rightarrow> (if n = 0 then 60 else n)))"

definition isRateLimited :: "string \<Rightarrow> int \<Rightarrow> manager \<Rightarrow> bool \<times> manager" where
  "isRateLimited apiId now m =
     (case rateLimitTracker m apiId of
        None \<Rightarrow> (False, m)
      | Some tr \<Rightarrow>
          if now > resetTime tr
          then (False, m\<lparr>rateLimitTracker :=
                           (rateLimitTracker m)(apiId \<mapsto> \<lparr>requests = 0, resetTime = now + 60 * 1000\<rparr>)\<rparr>)
          else (requests tr \<ge> max_rpm (apis_get (apis m) apiId), m))"

definition track_config :: "FeatureType \<Rightarrow> int \<Rightarrow> GeminiAPIConfig \<Rightarrow> GeminiAPIConfig" where
  "track_config feature now api =
     (let rate = QUOTA_RATES feature; q = quotaUsage api in
      api\<lparr>requestCount := requestCount api + 1,
          lastUsed := Some now,
          quotaUsage :=
            q\<lparr>q_requests := q_requests q + r_requests rate,
              q_tokens := q_tokens q + r_tokens rate,
              q_images := (case r_images rate of None \<Rightarrow> q_images q | Some i \<Rightarrow> q_images q + i),
              q_videos := (case r_videos rate of None \<Rightarrow> q_videos q | Some v \<Rightarrow> q_videos q + v)\<rparr>\<rparr>)"

definition trackUsage :: "string \<Rightarrow> FeatureType \<Rightarrow> int \<Rightarrow> manager \<Rightarrow> manager" where
  "trackUsage apiId feature now m =
     (case apis_get (apis m) apiId of
        None \<Rightarrow> m
      | Some _ \<Rightarrow>
          let fresh = \<lparr>requests = 0, resetTime = now + 60 * 1000\<rparr>;
              tr = (case rateLimitTracker m apiId of
                      None \<Rightarrow> fresh
                    | Some t \<Rightarrow> (if now > resetTime t then fresh else t))
          in m\<lparr>apis := apis_modify apiId (track_config feature now) (apis m),
               rateLimitTracker := (rateLimitTracker m)(apiId \<mapsto> tr\<lparr>requests := requests tr + 1\<rparr>)\<rparr>)"

subsection \<open>Selection\<close>

text \<open>
  The \<^verbatim>\<open>filter\<close> callback of \<^verbatim>\<open>getBestAPI\<close> run over the snapshot of the values:
  \<^verbatim>\<open>isRateLimited\<close> is called, and may reset a window, only for an active credential.
\<close>

fun eligible :: "int \<Rightarrow> GeminiAPIConfig list \<Rightarrow> manager \<Rightarrow> GeminiAPIConfig list \<times> manager" where
  "eligible now [] m = ([], m)"
| "eligible now (api # rest) m =
     (if status api = active
      then (let (limited, m1) = isRateLimited (id' api) now m;
                (es, m2) = eligible now rest m1
            in (if \<not> limited then api # es else es, m2))
      else eligible now rest m)"

text \<open>
  \<^verbatim>\<open>getBestAPI\<close>, for a \<open>feature\<close> of the parameter's declared type
  \<^verbatim>\<open>FeatureType\<close>: \<^verbatim>\<open>Array.prototype.sort\<close> is stable, as \<open>sort_key\<close> is; the
  loop returns at the first sorted credential that has clients; the result is \<open>None\<close>
  for \<^verbatim>\<open>null\<close>, and else the stored object after \<^verbatim>\<open>trackUsage\<close>.
\<close>

definition getBestAPI :: "FeatureType \<Rightarrow> int \<Rightarrow> manager \<Rightarrow> GeminiAPIConfig option \<times> manager" where
  "getBestAPI feature now m =
     (let (es, m1) = eligible now (apis m) m;
          sortedAPIs = sort_key priority es
      in case find (\<lambda>api. clients m1 (id' api) \<noteq> None) sortedAPIs of
           None \<Rightarrow> (None, m1)
         | Some api \<Rightarrow>
             (let m2 = trackUsage (id' api) feature now m1
              in (apis_get (apis m2) (id' api), m2)))"

subsection \<open>Failure handling and timed reactivation\<close>

text \<open>
  The \<^verbatim>\<open>error: any\<close> argument: an \<^verbatim>\<open>Error\<close> instance with its message, or another
  value with its \<^verbatim>\<open>message\<close> property if it has one (a string).
\<close>

datatype js_error = ErrorObject string | OtherValue "string option"

text \<open>\<^verbatim>\<open>error instanceof Error ? error.message : 'Unknown error'\<close>\<close>

definition error_text :: "js_error \<Rightarrow> string" where
  "error_text e = (case e of ErrorObject s \<Rightarrow> s | OtherValue _ \<Rightarrow> ''Unknown error'')"

text \<open>\<^verbatim>\<open>error?.message || ''\<close>\<close>

definition errorMessage :: "js_error \<Rightarrow> string" where
  "errorMessage e =
     (case e of ErrorObject s \<Rightarrow> s | OtherValue None \<Rightarrow> [] | OtherValue (Some s) \<Rightarrow> s)"

definition quota_error :: "string \<Rightarrow> bool" where
  "quota_error msg \<longleftrightarrow>
     includes_js msg ''quota'' \<or> includes_js msg ''overloaded'' \<or>
     includes_js msg ''rate limit'' \<or> includes_js msg ''503''"

definition handleAPIFailure :: "string \<Rightarrow> js_error \<Rightarrow> int \<Rightarrow> manager \<Rightarrow> manager" where
  "handleAPIFailure apiId error now m =
     (case apis_get (apis m) apiId of
        None \<Rightarrow> m
      | Some _ \<Rightarrow>
          let as1 = apis_modify apiId
                      (\<lambda>api. api\<lparr>failureCount := failureCount api + 1,
                                 lastError := Some (error_text error)\<rparr>) (apis m)
          in if quota_error (errorMessage error)
             then m\<lparr>apis := apis_modify apiId (\<lambda>api. api\<lparr>status := quota_exceeded\<rparr>) as1,
                    timers := timers m @
                      [\<lparr>due = now + 60 * 60 * 1000, target = apiId, kind = QuotaReset\<rparr>]\<rparr>
             else m\<lparr>apis := apis_modify apiId (\<lambda>api. api\<lparr>status := failed\<rparr>) as1,
                    timers := timers m @
                      [\<lparr>due = now + 5 * 60 * 1000, target = apiId, kind = FailedReset\<rparr>]\<rparr>)"

text \<open>The body of a timer's callback.\<close>

definition fire :: "timer \<Rightarrow> manager \<Rightarrow> manager" where
  "fire t m =
     (case kind t of
        QuotaReset \<Rightarrow>
          m\<lparr>apis := apis_modify (target t)
                       (\<lambda>api. if status api = quota_exceeded
                               then api\<lparr>status := active, failureCount := 0\<rparr>
                               else api) (apis m)\<rparr>
      | FailedReset \<Rightarrow>
          m\<lparr>apis := apis_modify (target t)
                       (\<lambda>api. if status api = failed
                               then api\<lparr>status := active\<rparr>
                               else api) (apis m)\<rparr>)"

text \<open>
  The event loop at time \<open>now\<close>: every pending timer that is due runs, earliest first
  (timers due together in the order they were set), and is gone.
\<close>

definition run_timers :: "int \<Rightarrow> manager \<Rightarrow> manager" where
  "run_timers now m =
     fold fire (sort_key due (filter (\<lambda>t. due t \<le> now) (timers m)))
       (m\<lparr>timers := filter (\<lambda>t. \<not> due t \<le> now) (timers m)\<rparr>)"

section \<open>Response cache (quota optimizer, src/unnamed/part_004)\<close>

text \<open>
  The queries are JavaScript strings: sequences of UTF-16 code units, here natural
  numbers. The regular expressions of the source have no \<^verbatim>\<open>u\<close> flag and work on
  code units.
\<close>

type_synonym js_string = "nat list"

text \<open>
  \<^verbatim>\<open>\s\<close>, which is also what \<^verbatim>\<open>trim\<close> removes: tab, line feed, vertical tab,
  form feed, carriage return, space, U+00A0, U+1680, U+2000 to U+200A, U+2028, U+2029,
  U+202F, U+205F, U+3000, U+FEFF.
\<close>

definition isWhiteSpace :: "nat \<Rightarrow> bool" where
  "isWhiteSpace c \<longleftrightarrow>
     (9 \<le> c \<and> c \<le> 13) \<or> c = 32 \<or> c = 160 \<or> c = 5760 \<or> (8192 \<le> c \<and> c \<le> 8202) \<or>
     c = 8232 \<or> c = 8233 \<or> c = 8239 \<or> c = 8287 \<or> c = 12288 \<or> c = 65279"

text \<open>\<^verbatim>\<open>\w\<close>: \<^verbatim>\<open>[A-Za-z0-9_]\<close>\<close>

definition isWordChar :: "nat \<Rightarrow> bool" where
  "isWordChar c \<longleftrightarrow>
     (65 \<le> c \<and> c \<le> 90) \<or> (97 \<le> c \<and> c \<le> 122) \<or> (48 \<le> c \<and> c \<le> 57) \<or> c = 95"

text \<open>
  \<^verbatim>\<open>toLowerCase\<close> on one code unit, by the Unicode case mapping of the Latin blocks
  that Vietnamese text is written in: Basic Latin, Latin-1 Supplement, Latin Extended-A,
  O and U with horn (U+01A0, U+01AF), Latin Extended Additional, and the two code units
  outside Basic Latin whose lower case has a Basic Latin letter (U+0130, which becomes
  \<open>i\<close> and U+0307, and the Kelvin sign U+212A, which becomes \<open>k\<close>). Code units of
  other scripts are left as they are: neither they nor their lower case are matched by
  \<^verbatim>\<open>\w\<close> or \<^verbatim>\<open>\s\<close>, so \<open>normalized\<close> removes them either way.
\<close>

definition lower_unit :: "nat \<Rightarrow> nat list" where
  "lower_unit c =
     (if 65 \<le> c \<and> c \<le> 90 then [c + 32]
      else if (192 \<le> c \<and> c \<le> 214) \<or> (216 \<le> c \<and> c \<le> 222) then [c + 32]
      else if c = 304 then [105, 775]
      else if ((256 \<le> c \<and> c \<le> 303) \<or> (306 \<le> c \<and> c \<le> 311) \<or> (330 \<le> c \<and> c \<le> 375))
              \<and> even c then [c + 1]
      else if ((313 \<le> c \<and> c \<le> 328) \<or> (377 \<le> c \<and> c \<le> 382)) \<and> odd c then [c + 1]
      else if c = 376 then [255]
      else if c = 416 \<or> c = 431 then [c + 1]
      else if ((7680 \<le> c \<and> c \<le> 7829) \<or> (7840 \<le> c \<and> c \<le> 7935)) \<and> even c then [c + 1]
      else if c = 7838 then [223]
      else if c = 8490 then [107]
      else [c])"

definition toLowerCase :: "js_string \<Rightarrow> js_string" where
  "toLowerCase s = concat (map lower_unit s)"

definition trim :: "js_string \<Rightarrow> js_string" where
  "trim s = rev (dropWhile isWhiteSpace (rev (dropWhile isWhiteSpace s)))"

text \<open>\<^verbatim>\<open>replace(/\s+/g, ' ')\<close>: every maximal run of white space becomes one space.\<close>

function collapse :: "js_string \<Rightarrow> js_string" where
  "collapse [] = []"
| "collapse (c # cs) =
     (if isWhiteSpace c then 32 # collapse (dropWhile isWhiteSpace cs) else c # collapse cs)"
  by pat_completeness auto
termination
  by (relation "measure length") (auto simp: length_dropWhile_le less_Suc_eq_le)

text \<open>\<^verbatim>\<open>replace(/[^\w\s]/g, '')\<close>\<close>

definition strip :: "js_string \<Rightarrow> js_string" where
  "strip s = filter (\<lambda>c. isWordChar c \<or> isWhiteSpace c) s"

definition normalized :: "js_string \<Rightarrow> js_string" where
  "normalized query = strip (collapse (trim (toLowerCase query)))"

text \<open>
  The hash loop. \<^verbatim>\<open>hash << 5\<close> and \<^verbatim>\<open>hash & hash\<close> convert to a signed 32-bit
  integer, and the subtraction and addition between them are exact, so the loop is
  arithmetic modulo \<open>2 ^ 32\<close>; \<^verbatim>\<open>hash.toString()\<close> prints the signed value, which
  stands for the string here.
\<close>

definition hash_step :: "nat \<Rightarrow> 32 word \<Rightarrow> 32 word" where
  "hash_step char hash = (push_bit 5 hash - hash) + word_of_nat char"

definition generateQueryHash :: "js_string \<Rightarrow> int" where
  "generateQueryHash query = sint (fold hash_step (normalized query) 0)"

datatype cache_type = T_chat | T_learning | T_webScraper | T_deepSearch

text \<open>
  The cache key \<^verbatim>\<open>`${type}_${queryHash}`\<close> is the pair of its two parts (no type
  name contains an underscore, so the string determines the pair).
\<close>

type_synonym cacheKey = "cache_type \<times> int"

record CachedResponse =
  content :: js_string
  timestamp :: int
  expiryTime :: int
  queryHash :: int

text \<open>
  \<^verbatim>\<open>responseCache\<close>, a \<^verbatim>\<open>Map\<close>: its entries in insertion order. \<^verbatim>\<open>set\<close> is
  \<open>AList.update\<close> (an existing key keeps its place), \<^verbatim>\<open>delete\<close> is
  \<open>AList.delete\<close>, \<^verbatim>\<open>get\<close> is \<open>map_of\<close>.
\<close>

type_synonym responseCache = "(cacheKey \<times> CachedResponse) list"

definition CACHE_DURATION :: int where
  "CACHE_DURATION = 30 * 60 * 1000"

definition getCachedResponse ::
  "js_string \<Rightarrow> cache_type \<Rightarrow> int \<Rightarrow> responseCache \<Rightarrow> js_string option \<times> responseCache" where
  "getCachedResponse query ty now cache =
     (let queryHash = generateQueryHash query;
          cacheKey = (ty, queryHash)
      in case map_of cache cacheKey of
           None \<Rightarrow> (None, cache)
         | Some cached \<Rightarrow>
             if expiryTime cached > now then (Some (content cached), cache)
             else (None, AList.delete cacheKey cache))"

definition setCachedResponse ::
  "js_string \<Rightarrow> js_string \<Rightarrow> cache_type \<Rightarrow> int \<Rightarrow> responseCache \<Rightarrow> responseCache" where
  "setCachedResponse query response ty now cache =
     (let queryHash = generateQueryHash query;
          cacheKey = (ty, queryHash);
          c1 = AList.update cacheKey
                 \<lparr>content = response, timestamp = now,
                  expiryTime = now + CACHE_DURATION, queryHash = queryHash\<rparr> cache
      in if length c1 > 100
         then (case c1 of [] \<Rightarrow> c1 | (oldestKey, _) # _ \<Rightarrow> AList.delete oldestKey c1)
         else c1)"

text \<open>The two phrasings of the specification's example, as code units.\<close>

definition phrasing_raw :: js_string where
  "phrasing_raw =
     [32, 32, 84, 7841, 111, 32, 7842, 110, 104, 32, 32, 32, 99, 111, 110, 32, 109, 232, 111, 33]"

definition phrasing_plain :: js_string where
  "phrasing_plain = [116, 7841, 111, 32, 7843, 110, 104, 32, 99, 111, 110, 32, 109, 232, 111]"


section \<open>Inputs of the worked examples\<close>

text \<open>
  A ledger with one account, \<open>u\<close>, at the schema's default balance of 1000 and no
  transactions; a sequence of operations on it; a debit of 700.
\<close>

definition ledger1000 :: db where
  "ledger1000 = \<lparr>users = [''u'' \<mapsto> 1000], creditTransactions = [], up = True\<rparr>"


definition debit700 :: debit_call where
  "debit700 = \<lparr>c_userId = ''u'', c_creditType = chat, c_messageId = None,
               c_customAmount = Some 700, c_description = None\<rparr>"

text \<open>
  A credential with the field values \<^verbatim>\<open>loadAPIConfigurations\<close> starts it with
  (active, counters at zero, 60 requests per minute), and registries made of such
  credentials: one credential; one whose clients could not be built and which was set
  active by hand, before a second one; one disabled credential; one with a ceiling of two
  requests per minute.
\<close>

definition cred :: "string \<Rightarrow> string \<Rightarrow> int \<Rightarrow> GeminiAPIConfig" where
  "cred i k p =
     \<lparr>id' = i, key = k, priority = p, name = i, status = active, lastUsed = None,
      requestCount = 0, failureCount = 0, lastError = None, maxRequestsPerMinute = Some 60,
      quotaUsage = \<lparr>q_requests = 0, q_tokens = 0, q_images = 0, q_videos = 0, q_resetTime = 0\<rparr>\<rparr>"

definition one_api :: manager where
  "one_api = addAPI None (cred ''primary'' ''AIzaOne'' 1) new_manager"

definition no_client_first :: manager where
  "no_client_first =
     updateAPIStatus ''primary'' active
       (addAPI None (cred ''api_2'' ''AIzaTwo'' 2)
          (addAPI (Some ''client construction failed'') (cred ''primary'' ''AIzaOne'' 1) new_manager))"

definition all_disabled :: manager where
  "all_disabled = updateAPIStatus ''primary'' disabled one_api"

definition two_per_minute :: manager where
  "two_per_minute =
     addAPI None ((cred ''primary'' ''AIzaOne'' 1)\<lparr>maxRequestsPerMinute := Some 2\<rparr>) new_manager"

text \<open>
  Of a registration call: whether its secret passes the format check (only
  \<^verbatim>\<open>addAPIAtRuntime\<close> has one), the id it registers under and its secret. In a
  consistent sequence of calls no id is used again for another secret. A sequence of calls
  with a repeated secret and a refused one.
\<close>

fun call_valid :: "register_call \<Rightarrow> bool" where
  "call_valid (AddAPI thrown config) = True"
| "call_valid (AddAPIAtRuntime thrown keyName apiKey customName now) = startsWith apiKey ''AIza''"

fun call_id :: "register_call \<Rightarrow> string" where
  "call_id (AddAPI thrown config) = id' config"
| "call_id (AddAPIAtRuntime thrown keyName apiKey customName now) = ''runtime_'' @ keyName"

fun call_key :: "register_call \<Rightarrow> string" where
  "call_key (AddAPI thrown config) = key config"
| "call_key (AddAPIAtRuntime thrown keyName apiKey customName now) = apiKey"

fun ids_consistent :: "register_call list \<Rightarrow> bool" where
  "ids_consistent [] = True"
| "ids_consistent (c # cs) =
     ((call_valid c \<longrightarrow>
         list_all (\<lambda>c'. call_valid c' \<and> call_id c' = call_id c \<longrightarrow> call_key c' = call_key c) cs)
      \<and> ids_consistent cs)"

definition register_calls :: "register_call list" where
  "register_calls =
     [AddAPI None (cred ''primary'' ''AIzaOne'' 1),
      AddAPI None (cred ''api_2'' ''AIzaOne'' 2),
      AddAPIAtRuntime None ''y'' ''AIzaTwo'' None 0,
      AddAPIAtRuntime None ''z'' ''not a key'' None 0]"

text \<open>Two errors a provider call fails with: one names the quota, one does not.\<close>

definition quota_err :: js_error where "quota_err = ErrorObject ''429 quota exceeded''"
definition net_err :: js_error where "net_err = ErrorObject ''socket hang up''"

text \<open>
  The credentials \<^verbatim>\<open>getBestAPI\<close> chooses among: active, not rate limited, by
  ascending priority, equal priorities in registration order.
\<close>

definition eligible_sorted :: "int \<Rightarrow> manager \<Rightarrow> GeminiAPIConfig list" where
  "eligible_sorted now m =
     sort_key priority
       (filter (\<lambda>api. status api = active \<and> \<not> fst (isRateLimited (id' api) now m)) (apis m))"

text \<open>What a timer's callback does to one credential, and the delay it is set with.\<close>

definition entry_fire :: "timer \<Rightarrow> GeminiAPIConfig \<Rightarrow> GeminiAPIConfig" where
  "entry_fire t x =
     (if id' x = target t
      then (case kind t of
              QuotaReset \<Rightarrow> (if status x = quota_exceeded
                             then x\<lparr>status := active, failureCount := 0\<rparr> else x)
            | FailedReset \<Rightarrow> (if status x = failed then x\<lparr>status := active\<rparr> else x))
      else x)"

definition reactivation_delay :: "js_error \<Rightarrow> int" where
  "reactivation_delay e = (if quota_error (errorMessage e) then 60 * 60 * 1000 else 5 * 60 * 1000)"

section \<open>Properties of the credit ledger\<close>

lemmas ledger_defs = deductCredits_def addCredits_def setCredits_def getUserCredits_def select_credits_def update_credits_def
        insert_transaction_def int4_def Let_def deduct_amount_def deduct_description_def

lemma CREDIT_COSTS_pos: "0 < CREDIT_COSTS ct"
  by (cases ct) simp_all

subsection \<open>Balance of a missing account\<close>

text \<open>
  C10. For a user id with no stored account, and also when the balance lookup itself
  fails, \<^verbatim>\<open>getUserCredits\<close> returns 0 and raises nothing; \<^verbatim>\<open>canAfford\<close> then
  answers \<open>canAfford = false\<close>, \<open>currentCredits = 0\<close> and \<open>required\<close> the
  feature's configured cost, for every feature category (each cost is positive).
\<close>

theorem getBalance_missing_account:
  "users d uid = None \<or> \<not> up d \<Longrightarrow>
   getUserCredits d uid = 0 \<and>
   canAfford d uid ct = \<lparr>canAfford_flag = False, currentCredits = 0, required = CREDIT_COSTS ct\<rparr> \<and>
   0 < CREDIT_COSTS ct"
proof -
  assume h: "users d uid = None \<or> \<not> up d"
  then have g: "getUserCredits d uid = 0"
    by (auto simp: getUserCredits_def select_credits_def)
  have "\<not> CREDIT_COSTS ct \<le> 0" using CREDIT_COSTS_pos [of ct] by simp
  with g show ?thesis
    by (simp add: canAfford_def Let_def CREDIT_COSTS_pos)
qed

theorem getBalance_missing_account_witness:
  "(users \<lparr>users = Map.empty, creditTransactions = [], up = True\<rparr> ''nobody'' = None \<or>
      \<not> up \<lparr>users = Map.empty, creditTransactions = [], up = True\<rparr>) \<and>
   getUserCredits \<lparr>users = Map.empty, creditTransactions = [], up = True\<rparr> ''nobody'' = 0 \<and>
   canAfford \<lparr>users = Map.empty, creditTransactions = [], up = True\<rparr> ''nobody'' imageGeneration
     = \<lparr>canAfford_flag = False, currentCredits = 0, required = 200\<rparr>"
  using getBalance_missing_account
          [of "\<lparr>users = Map.empty, creditTransactions = [], up = True\<rparr>" "''nobody''" imageGeneration]
  by simp

subsection \<open>Sign of the balance\<close>

text \<open>A debit never makes a balance negative that was not.\<close>

lemma deduct_nonneg:
  "0 \<le> getUserCredits d u \<Longrightarrow> 0 \<le> getUserCredits (snd (deductCredits d uid ct mid ca ds)) u"
  by (auto simp: deductCredits_def getUserCredits_def select_credits_def update_credits_def
        insert_transaction_def Let_def split: sum.splits option.splits if_splits)

text \<open>
  C2. The stored balance is never to be written negative: \<^verbatim>\<open>deductCredits\<close> refuses
  a debit beyond the balance and the administrator's page refuses negative credits.
  \<^verbatim>\<open>setCredits\<close> has no such check, nor has the route that calls it: called with
  \<open>- 5\<close> on a balance of 1000 it succeeds and the stored balance is \<open>- 5\<close>.
\<close>

theorem setCredits_stores_negative:
  "success (fst (setCredits ledger1000 ''u'' (- 5) ''Admin credit adjustment to -5'')) \<and>
   newBalance (fst (setCredits ledger1000 ''u'' (- 5) ''Admin credit adjustment to -5'')) = - 5 \<and>
   users (snd (setCredits ledger1000 ''u'' (- 5) ''Admin credit adjustment to -5'')) ''u''
     = Some (- 5) \<and>
   getUserCredits (snd (setCredits ledger1000 ''u'' (- 5) ''Admin credit adjustment to -5'')) ''u''
     = - 5"
  by (simp add: ledger1000_def ledger_defs)

subsection \<open>Replay of the transaction log\<close>








subsection \<open>Two debits in flight\<close>

lemmas step_defs = concurrent_debits_def serial_def succeeded_def insufficient_def

lemma run_alone:
  "run_schedule c1 c2 (replicate 3 False) (Selecting, p2, d)
     = (Returned (fst (deductCredits d (c_userId c1) (c_creditType c1) (c_messageId c1)
                        (c_customAmount c1) (c_description c1))), p2,
        snd (deductCredits d (c_userId c1) (c_creditType c1) (c_messageId c1)
                        (c_customAmount c1) (c_description c1)))"
  by (simp add: numeral_3_eq_3 deductCredits_def Let_def split: sum.splits)

lemma run_alone2:
  "run_schedule c1 c2 (replicate 3 True) (p1, Selecting, d)
     = (p1, Returned (fst (deductCredits d (c_userId c2) (c_creditType c2) (c_messageId c2)
                        (c_customAmount c2) (c_description c2))),
        snd (deductCredits d (c_userId c2) (c_creditType c2) (c_messageId c2)
                        (c_customAmount c2) (c_description c2)))"
  by (simp add: numeral_3_eq_3 deductCredits_def Let_def split: sum.splits)

lemma run_schedule_append:
  "run_schedule c1 c2 (xs @ ys) s = run_schedule c1 c2 ys (run_schedule c1 c2 xs s)"
  by (induction xs arbitrary: s) (auto simp: split_beta)

lemma debit_ok:
  assumes "users d u = Some b" "up d" "int4 b" "0 < a" "a \<le> b"
    "deduct_amount ct ca = a"
  shows "deductCredits d u ct mid ca ds =
     (\<lparr>success = True, newBalance = b - a, message = Used a (b - a)\<rparr>,
      d\<lparr>users := (users d)(u \<mapsto> b - a),
        creditTransactions := creditTransactions d @
          [\<lparr>userId = u, messageId = mid, type = Feature ct, amount = - a, balanceAfter = b - a,
            description = deduct_description ds a ct\<rparr>]\<rparr>)"
  using assms
  by (auto simp: deductCredits_def getUserCredits_def select_credits_def update_credits_def
       insert_transaction_def int4_def Let_def)

lemma debit_short:
  assumes "users d u = Some b" "up d" "b < a" "deduct_amount ct ca = a"
  shows "deductCredits d u ct mid ca ds =
     (\<lparr>success = False, newBalance = b, message = Insufficient a b\<rparr>, d)"
  using assms
  by (auto simp: deductCredits_def getUserCredits_def select_credits_def Let_def)

text \<open>
  C1 (amended). When two debits against one account run one after the other (the second
  starts after the first has returned), and each amount is positive and within the balance
  while their sum exceeds it, exactly one succeeds and the other returns the
  insufficient-credit result, and the final balance is the initial balance minus the
  single successful debit: from 1000, two debits of 700 give one success, one refusal and
  a balance of 300.
\<close>

theorem serial_debits:
  assumes "users d u = Some b" and "up d" and "int4 b"
    and "c_userId c1 = u" and "c_userId c2 = u"
    and "deduct_amount (c_creditType c1) (c_customAmount c1) = a1"
    and "deduct_amount (c_creditType c2) (c_customAmount c2) = a2"
    and "0 < a1" and "a1 \<le> b" and "0 < a2" and "a2 \<le> b" and "b < a1 + a2"
  shows "case concurrent_debits c1 c2 (serial first) d of
           (p1, p2, d') \<Rightarrow>
             (if first
              then succeeded p2 \<and> insufficient p1 \<and> getUserCredits d' u = b - a2
              else succeeded p1 \<and> insufficient p2 \<and> getUserCredits d' u = b - a1)"
proof (cases first)
  case False
  let ?d1 = "d\<lparr>users := (users d)(u \<mapsto> b - a1),
        creditTransactions := creditTransactions d @
          [\<lparr>userId = u, messageId = c_messageId c1, type = Feature (c_creditType c1), amount = - a1,
            balanceAfter = b - a1,
            description = deduct_description (c_description c1) a1 (c_creditType c1)\<rparr>]\<rparr>"
  have s1: "deductCredits d u (c_creditType c1) (c_messageId c1) (c_customAmount c1) (c_description c1)
         = (\<lparr>success = True, newBalance = b - a1, message = Used a1 (b - a1)\<rparr>, ?d1)"
    using assms by (intro debit_ok) auto
  have s2: "deductCredits ?d1 u (c_creditType c2) (c_messageId c2) (c_customAmount c2) (c_description c2)
         = (\<lparr>success = False, newBalance = b - a1, message = Insufficient a2 (b - a1)\<rparr>, ?d1)"
    using assms by (intro debit_short) auto
  show ?thesis
    using False assms(1,2,4,5) s1 s2
    by (simp add: concurrent_debits_def serial_def run_schedule_append run_alone run_alone2
          succeeded_def insufficient_def getUserCredits_def select_credits_def)
next
  case True
  let ?d1 = "d\<lparr>users := (users d)(u \<mapsto> b - a2),
        creditTransactions := creditTransactions d @
          [\<lparr>userId = u, messageId = c_messageId c2, type = Feature (c_creditType c2), amount = - a2,
            balanceAfter = b - a2,
            description = deduct_description (c_description c2) a2 (c_creditType c2)\<rparr>]\<rparr>"
  have s1: "deductCredits d u (c_creditType c2) (c_messageId c2) (c_customAmount c2) (c_description c2)
         = (\<lparr>success = True, newBalance = b - a2, message = Used a2 (b - a2)\<rparr>, ?d1)"
    using assms by (intro debit_ok) auto
  have s2: "deductCredits ?d1 u (c_creditType c1) (c_messageId c1) (c_customAmount c1) (c_description c1)
         = (\<lparr>success = False, newBalance = b - a2, message = Insufficient a1 (b - a2)\<rparr>, ?d1)"
    using assms by (intro debit_short) auto
  show ?thesis
    using True assms(1,2,4,5) s1 s2
    by (simp add: concurrent_debits_def serial_def run_schedule_append run_alone run_alone2
          succeeded_def insufficient_def getUserCredits_def select_credits_def)
qed

theorem serial_debits_witness:
  "users ledger1000 ''u'' = Some 1000 \<and> up ledger1000 \<and> int4 1000 \<and>
   c_userId debit700 = ''u'' \<and>
   deduct_amount (c_creditType debit700) (c_customAmount debit700) = 700 \<and>
   (0::int) < 700 \<and> (700::int) \<le> 1000 \<and> (1000::int) < 700 + 700 \<and>
   (case concurrent_debits debit700 debit700 (serial False) ledger1000 of
      (p1, p2, d') \<Rightarrow> succeeded p1 \<and> insufficient p2 \<and> getUserCredits d' ''u'' = 300)"
proof -
  have h1: "users ledger1000 ''u'' = Some 1000" and h2: "up ledger1000"
    by (simp_all add: ledger1000_def)
  have h3: "int4 1000" by (simp add: int4_def)
  have h4: "c_userId debit700 = ''u''" by (simp add: debit700_def)
  have h5: "deduct_amount (c_creditType debit700) (c_customAmount debit700) = 700"
    by (simp add: debit700_def deduct_amount_def)
  show ?thesis
    using serial_debits [OF h1 h2 h3 h4 h4 h5 h5, of False] h1 h2 h3 h4 h5 by simp
qed

text \<open>
  As C1 is stated, for debits in flight together, it fails: when both selects are served
  before either update, both debits of 700 from a balance of 1000 succeed, the balance is
  300 and the log holds two rows of \<open>- 700\<close>.
\<close>

theorem concurrent_debits_counterexample:
  "(case concurrent_debits debit700 debit700 [False, True, False, True, False, True] ledger1000 of
      (p1, p2, d') \<Rightarrow>
        succeeded p1 \<and> succeeded p2 \<and> getUserCredits d' ''u'' = 300 \<and>
        map amount (creditTransactions d') = [- 700, - 700])"
  by (simp add: debit700_def ledger1000_def step_defs ledger_defs)

section \<open>Properties of the provider pool\<close>

lemmas mgr_defs = addAPI_def new_manager_def Let_def cred_def updateAPIStatus_def apis_modify_def
  apis_get_def isRateLimited_def trackUsage_def track_config_def getBestAPI_def max_rpm_def

subsection \<open>Registration\<close>

lemma map_key_apis_modify:
  "(\<And>a. key (f a) = key a) \<Longrightarrow> map key (apis_modify i f as) = map key as"
  by (simp add: apis_modify_def)

lemma set_key_apis_set: "key ` set (apis_set c as) \<subseteq> insert (key c) (key ` set as)"
  by (induction as) auto

lemma distinct_key_apis_set:
  "distinct (map key as) \<Longrightarrow> key c \<notin> key ` set as \<Longrightarrow> distinct (map key (apis_set c as))"
proof (induction as)
  case Nil
  then show ?case by simp
next
  case (Cons a as)
  have "key a \<notin> key ` set (apis_set c as)"
    using Cons.prems set_key_apis_set [of c as] by auto
  with Cons show ?case by auto
qed

lemma find_key_None: "find (\<lambda>api. key api = k) as = None \<longleftrightarrow> k \<notin> key ` set as"
  by (auto simp: find_None_iff)

lemma addAPI_duplicate:
  "key config \<in> key ` set (apis m) \<Longrightarrow> addAPI thrown config m = m"
  by (cases "find (\<lambda>api. key api = key config) (apis m)")
     (auto simp: addAPI_def find_key_None)

lemma addAPI_distinct:
  assumes "distinct (map key (apis m))"
  shows "distinct (map key (apis (addAPI thrown config m)))"
proof (cases "find (\<lambda>api. key api = key config) (apis m)")
  case None
  then have "key config \<notin> key ` set (apis m)" by (simp add: find_key_None)
  with assms have "distinct (map key (apis_set config (apis m)))"
    by (intro distinct_key_apis_set)
  with None show ?thesis
    by (cases thrown) (simp_all add: addAPI_def Let_def map_key_apis_modify)
next
  case (Some a)
  with assms show ?thesis by (simp add: addAPI_def)
qed

lemma register_distinct:
  "distinct (map key (apis m)) \<Longrightarrow> distinct (map key (apis (register c m)))"
  by (cases c) (auto simp: addAPIAtRuntime_def Let_def intro: addAPI_distinct)

lemma fold_register_distinct:
  "distinct (map key (apis m)) \<Longrightarrow> distinct (map key (apis (fold register calls m)))"
  by (induction calls arbitrary: m) (simp_all add: register_distinct)

lemma one_api_eq:
  "one_api = \<lparr>apis = [cred ''primary'' ''AIzaOne'' 1], clients = [''primary'' \<mapsto> ''AIzaOne''],
              rateLimitTracker = Map.empty, timers = []\<rparr>"
  by (simp add: one_api_def addAPI_def new_manager_def Let_def cred_def)

lemma register_invalid: "\<not> call_valid c \<Longrightarrow> register c m = m"
  by (cases c) (simp_all add: addAPIAtRuntime_def)

lemma register_valid:
  "call_valid c \<Longrightarrow>
   \<exists>thrown config. register c m = addAPI thrown config m \<and>
      id' config = call_id c \<and> key config = call_key c"
proof (cases c)
  case (AddAPI thrown config)
  then show ?thesis by auto
next
  case (AddAPIAtRuntime thrown keyName apiKey customName now)
  assume "call_valid c"
  with AddAPIAtRuntime have v: "startsWith apiKey ''AIza''" by simp
  let ?config = "\<lparr>id' = ''runtime_'' @ keyName,
               key = apiKey,
               priority = int (length (apis m)) + 1,
               name = (case customName of
                         None \<Rightarrow> ''Gemini API ('' @ keyName @ '')''
                       | Some n \<Rightarrow> (if n = [] then ''Gemini API ('' @ keyName @ '')'' else n)),
               status = active,
               lastUsed = None,
               requestCount = 0,
               failureCount = 0,
               lastError = None,
               maxRequestsPerMinute = Some 60,
               quotaUsage = \<lparr>q_requests = 0, q_tokens = 0, q_images = 0, q_videos = 0,
                              q_resetTime = now\<rparr>\<rparr>"
  have "register c m = addAPI thrown ?config m"
    using AddAPIAtRuntime v by (simp add: addAPIAtRuntime_def Let_def)
  moreover have "id' ?config = call_id c" "key ?config = call_key c"
    using AddAPIAtRuntime by simp_all
  ultimately show ?thesis by blast
qed

lemma set_apis_set: "set (apis_set c as) \<subseteq> insert c (set as)"
  by (induction as) auto

lemma apis_set_new: "id' c \<notin> id' ` set as \<Longrightarrow> apis_set c as = as @ [c]"
  by (induction as) auto

lemma pairs_apis_modify:
  "(\<And>a. id' (f a) = id' a \<and> key (f a) = key a) \<Longrightarrow>
   map (\<lambda>a. (id' a, key a)) (apis_modify i f as) = map (\<lambda>a. (id' a, key a)) as"
  by (simp add: apis_modify_def)

lemma pairs_apis_set:
  "(\<lambda>a. (id' a, key a)) ` set (apis_set c as)
     \<subseteq> insert (id' c, key c) ((\<lambda>a. (id' a, key a)) ` set as)"
proof -
  have "(\<lambda>a. (id' a, key a)) ` set (apis_set c as) \<subseteq> (\<lambda>a. (id' a, key a)) ` insert c (set as)"
    using set_apis_set by (rule image_mono)
  then show ?thesis by (simp only: image_insert)
qed

lemma apis_addAPI:
  "apis (addAPI thrown config m) =
     (case find (\<lambda>api. key api = key config) (apis m) of
        Some _ \<Rightarrow> apis m
      | None \<Rightarrow>
          (case thrown of
             None \<Rightarrow> apis_set config (apis m)
           | Some msg \<Rightarrow>
               apis_modify (id' config) (\<lambda>c. c\<lparr>status := failed, lastError := Some msg\<rparr>)
                 (apis_set config (apis m))))"
  by (simp add: addAPI_def Let_def split: option.splits)

lemma addAPI_pairs:
  "(\<lambda>a. (id' a, key a)) ` set (apis (addAPI thrown config m))
     \<subseteq> insert (id' config, key config) ((\<lambda>a. (id' a, key a)) ` set (apis m))"
proof (cases "find (\<lambda>api. key api = key config) (apis m)")
  case (Some a)
  then have "apis (addAPI thrown config m) = apis m" by (simp add: apis_addAPI)
  then show ?thesis by (simp only: subset_insertI)
next
  case None
  note sub = pairs_apis_set [of config "apis m"]
  show ?thesis
  proof (cases thrown)
    case thrownNone: None
    with None have "apis (addAPI thrown config m) = apis_set config (apis m)"
      by (simp add: apis_addAPI)
    with sub show ?thesis by (simp only:)
  next
    case (Some msg)
    with None have e: "apis (addAPI thrown config m)
        = apis_modify (id' config) (\<lambda>c. c\<lparr>status := failed, lastError := Some msg\<rparr>)
            (apis_set config (apis m))"
      by (simp add: apis_addAPI)
    have "map (\<lambda>a. (id' a, key a))
            (apis_modify (id' config) (\<lambda>c. c\<lparr>status := failed, lastError := Some msg\<rparr>)
               (apis_set config (apis m)))
          = map (\<lambda>a. (id' a, key a)) (apis_set config (apis m))"
      by (rule pairs_apis_modify) simp
    then have "set (map (\<lambda>a. (id' a, key a)) (apis (addAPI thrown config m)))
          = set (map (\<lambda>a. (id' a, key a)) (apis_set config (apis m)))"
      by (simp only: e)
    then have "(\<lambda>a. (id' a, key a)) ` set (apis (addAPI thrown config m))
          = (\<lambda>a. (id' a, key a)) ` set (apis_set config (apis m))"
      by (simp only: set_map)
    with sub show ?thesis by (simp only:)
  qed
qed

lemma addAPI_keys:
  assumes "\<forall>a\<in>set (apis m). id' a = id' config \<longrightarrow> key a = key config"
  shows "key ` set (apis (addAPI thrown config m)) = insert (key config) (key ` set (apis m))"
proof (cases "find (\<lambda>api. key api = key config) (apis m)")
  case (Some a)
  then have "find (\<lambda>api. key api = key config) (apis m) \<noteq> None" by simp
  then have "key config \<in> key ` set (apis m)"
    using find_key_None [of "key config" "apis m"] by simp
  then have "insert (key config) (key ` set (apis m)) = key ` set (apis m)"
    by (rule insert_absorb)
  moreover have "apis (addAPI thrown config m) = apis m" using Some by (simp add: apis_addAPI)
  ultimately show ?thesis by (simp only:)
next
  case None
  then have nk: "key config \<notin> key ` set (apis m)" by (simp add: find_key_None)
  have "id' config \<notin> id' ` set (apis m)"
  proof
    assume "id' config \<in> id' ` set (apis m)"
    then obtain a where a: "a \<in> set (apis m)" "id' a = id' config" by (metis imageE)
    with assms have "key a = key config" by blast
    moreover have "key a \<in> key ` set (apis m)" using a(1) by (rule imageI)
    ultimately show False using nk by simp
  qed
  then have as: "apis_set config (apis m) = apis m @ [config]" by (rule apis_set_new)
  have k: "key ` set (apis m @ [config]) = insert (key config) (key ` set (apis m))"
    by simp
  show ?thesis
  proof (cases thrown)
    case thrownNone: None
    with None have "apis (addAPI thrown config m) = apis_set config (apis m)"
      by (simp add: apis_addAPI)
    with as k show ?thesis by (simp only:)
  next
    case (Some msg)
    with None have e: "apis (addAPI thrown config m)
        = apis_modify (id' config) (\<lambda>c. c\<lparr>status := failed, lastError := Some msg\<rparr>)
            (apis_set config (apis m))"
      by (simp add: apis_addAPI)
    have "map key (apis_modify (id' config) (\<lambda>c. c\<lparr>status := failed, lastError := Some msg\<rparr>)
                    (apis_set config (apis m))) = map key (apis_set config (apis m))"
      by (rule map_key_apis_modify) simp
    then have "set (map key (apis (addAPI thrown config m))) = set (map key (apis m @ [config]))"
      by (simp only: e as)
    then have "key ` set (apis (addAPI thrown config m)) = key ` set (apis m @ [config])"
      by (simp only: set_map)
    with k show ?thesis by (simp only:)
  qed
qed

lemma fold_register_keys:
  assumes "ids_consistent calls"
    and "\<forall>c\<in>set calls. call_valid c \<longrightarrow>
           (\<forall>a\<in>set (apis m). id' a = call_id c \<longrightarrow> key a = call_key c)"
  shows "key ` set (apis (fold register calls m))
           = key ` set (apis m) \<union> call_key ` set (filter call_valid calls)"
  using assms
proof (induction calls arbitrary: m)
  case Nil
  then show ?case by simp
next
  case (Cons c cs)
  have cons: "ids_consistent cs" using Cons.prems(1) by simp
  show ?case
  proof (cases "call_valid c")
    case False
    then have r: "register c m = m" by (rule register_invalid)
    have "\<forall>c\<in>set cs. call_valid c \<longrightarrow>
           (\<forall>a\<in>set (apis m). id' a = call_id c \<longrightarrow> key a = call_key c)"
      using Cons.prems(2) by simp
    from Cons.IH [OF cons this] False r show ?thesis by simp
  next
    case True
    from register_valid [OF True, of m] obtain thrown config where
      r: "register c m = addAPI thrown config m" and ic: "id' config = call_id c"
      and kc: "key config = call_key c"
      by blast
    have compat: "\<forall>a\<in>set (apis m). id' a = id' config \<longrightarrow> key a = key config"
      using Cons.prems(2) True ic kc by simp
    have keys: "key ` set (apis (register c m)) = insert (call_key c) (key ` set (apis m))"
      using addAPI_keys [OF compat, of thrown] r kc by simp
    have later: "\<forall>c'\<in>set cs. call_valid c' \<and> call_id c' = call_id c \<longrightarrow> call_key c' = call_key c"
      using Cons.prems(1) True by (simp add: list_all_iff)
    have next_ok: "\<forall>c'\<in>set cs. call_valid c' \<longrightarrow>
           (\<forall>a\<in>set (apis (register c m)). id' a = call_id c' \<longrightarrow> key a = call_key c')"
    proof (intro ballI impI)
      fix c' a
      assume c': "c' \<in> set cs" "call_valid c'" and a: "a \<in> set (apis (register c m))"
        and ia: "id' a = call_id c'"
      from a have "(id' a, key a) \<in> (\<lambda>a. (id' a, key a)) ` set (apis (addAPI thrown config m))"
        using r by simp
      with addAPI_pairs [of thrown config m]
      have "(id' a, key a) = (id' config, key config) \<or>
            (id' a, key a) \<in> (\<lambda>a. (id' a, key a)) ` set (apis m)"
        by blast
      then show "key a = call_key c'"
      proof
        assume "(id' a, key a) = (id' config, key config)"
        then have "call_id c' = call_id c" "key a = call_key c" using ia ic kc by simp_all
        with later c' show ?thesis by simp
      next
        assume "(id' a, key a) \<in> (\<lambda>a. (id' a, key a)) ` set (apis m)"
        then obtain b where b: "b \<in> set (apis m)" "id' b = id' a" "key b = key a" by auto
        with Cons.prems(2) c' ia show ?thesis by simp
      qed
    qed
    from Cons.IH [OF cons next_ok] keys True show ?thesis by auto
  qed
qed

text \<open>
  C6 (amended). A registration call whose secret equals the secret of a stored credential
  stores nothing (the manager is unchanged), through \<^verbatim>\<open>addAPI\<close> and through
  \<^verbatim>\<open>addAPIAtRuntime\<close>. After every sequence of registration calls the listing holds
  no two credentials with the same secret; and when no id is used again for another
  secret, it holds exactly one entry for each distinct secret of the calls that pass the
  format check, however often a secret was repeated.
\<close>

theorem registration_duplicate_noop:
  assumes "key config \<in> set (map key (getAllAPIs m))"
  shows "addAPI thrown config m = m \<and>
         snd (addAPIAtRuntime thrown keyName (key config) customName now m) = m \<and>
         distinct (map key (getAllAPIs (fold register calls new_manager))) \<and>
         (ids_consistent calls \<longrightarrow>
            set (map key (getAllAPIs (fold register calls new_manager)))
              = set (map call_key (filter call_valid calls)))"
proof -
  from assms have k: "key config \<in> key ` set (apis m)" by (simp add: getAllAPIs_def)
  have a: "addAPI thrown config m = m" using k by (rule addAPI_duplicate)
  have b: "snd (addAPIAtRuntime thrown keyName (key config) customName now m) = m"
    using k by (simp add: addAPIAtRuntime_def Let_def addAPI_duplicate)
  have "distinct (map key (apis new_manager))" by (simp add: new_manager_def)
  then have c: "distinct (map key (apis (fold register calls new_manager)))"
    by (rule fold_register_distinct)
  have d: "set (map key (apis (fold register calls new_manager)))
              = set (map call_key (filter call_valid calls))" if "ids_consistent calls"
  proof -
    have "\<forall>c\<in>set calls. call_valid c \<longrightarrow>
           (\<forall>a\<in>set (apis new_manager). id' a = call_id c \<longrightarrow> key a = call_key c)"
      by (simp add: new_manager_def)
    from fold_register_keys [OF that this] show ?thesis by (simp add: new_manager_def)
  qed
  from a b c d show ?thesis by (simp add: getAllAPIs_def)
qed

lemma register_step1: "addAPI None (cred ''primary'' ''AIzaOne'' 1) new_manager = one_api"
  by (simp add: one_api_def)

lemma register_step2: "addAPI None (cred ''api_2'' ''AIzaOne'' 2) one_api = one_api"
  by (rule addAPI_duplicate) (simp add: one_api_eq cred_def)

lemma register_step3:
  "map key (apis (register (AddAPIAtRuntime None ''y'' ''AIzaTwo'' None 0) one_api))
     = [''AIzaOne'', ''AIzaTwo'']"
  by (simp add: one_api_eq addAPIAtRuntime_def addAPI_def startsWith_def Let_def cred_def)

lemma register_calls_run:
  "map key (getAllAPIs (fold register register_calls new_manager)) = [''AIzaOne'', ''AIzaTwo'']"
proof -
  have "fold register register_calls new_manager
          = register (AddAPIAtRuntime None ''z'' ''not a key'' None 0)
              (register (AddAPIAtRuntime None ''y'' ''AIzaTwo'' None 0) one_api)"
    by (simp add: register_calls_def register_step1 register_step2
          del: register.simps(2))
  also have "\<dots> = register (AddAPIAtRuntime None ''y'' ''AIzaTwo'' None 0) one_api"
    by (rule register_invalid) (simp add: startsWith_def)
  finally show ?thesis by (simp only: getAllAPIs_def register_step3)
qed

lemma register_calls_consistent: "ids_consistent register_calls"
  by (simp add: register_calls_def cred_def startsWith_def)

lemma register_calls_keys:
  "set (map call_key (filter call_valid register_calls)) = {''AIzaOne'', ''AIzaTwo''}"
  by (simp add: register_calls_def cred_def startsWith_def)

theorem registration_duplicate_noop_witness:
  "key (cred ''api_2'' ''AIzaOne'' 2) \<in> set (map key (getAllAPIs one_api)) \<and>
   ids_consistent register_calls \<and>
   addAPI None (cred ''api_2'' ''AIzaOne'' 2) one_api = one_api \<and>
   map key (getAllAPIs (fold register register_calls new_manager)) = [''AIzaOne'', ''AIzaTwo''] \<and>
   set (map call_key (filter call_valid register_calls)) = {''AIzaOne'', ''AIzaTwo''}"
proof -
  have h: "key (cred ''api_2'' ''AIzaOne'' 2) \<in> set (map key (getAllAPIs one_api))"
    by (simp add: one_api_eq getAllAPIs_def cred_def)
  note t = registration_duplicate_noop [OF h, of None "''x''" None 0 register_calls]
  from t have "addAPI None (cred ''api_2'' ''AIzaOne'' 2) one_api = one_api" by (rule conjunct1)
  with h register_calls_consistent register_calls_run register_calls_keys
  show ?thesis by (simp only: simp_thms)
qed

lemma replaced_under_same_id:
  "map key (getAllAPIs (fold register
      [AddAPI None (cred ''primary'' ''AIzaOne'' 1), AddAPI None (cred ''primary'' ''AIzaTwo'' 1)]
      new_manager)) = [''AIzaTwo'']"
proof -
  have "map key (apis (addAPI None (cred ''primary'' ''AIzaTwo'' 1) one_api)) = [''AIzaTwo'']"
    by (simp add: one_api_eq addAPI_def Let_def cred_def)
  then show ?thesis by (simp add: register_step1 getAllAPIs_def)
qed

text \<open>
  As C6 is stated it fails in three places: \<^verbatim>\<open>addAPIAtRuntime\<close> with the secret of a
  stored credential stores nothing and returns \<^verbatim>\<open>true\<close>; a new secret registered
  under an id already in use replaces the credential stored there, whose secret is then
  not listed; and \<^verbatim>\<open>addAPIAtRuntime\<close> refuses a new secret that does not start with
  \<^verbatim>\<open>AIza\<close>.
\<close>

theorem register_counterexample:
  "addAPIAtRuntime None ''second'' ''AIzaOne'' None 0 one_api = (True, one_api) \<and>
   map key (getAllAPIs (fold register
      [AddAPI None (cred ''primary'' ''AIzaOne'' 1), AddAPI None (cred ''primary'' ''AIzaTwo'' 1)]
      new_manager)) = [''AIzaTwo''] \<and>
   addAPIAtRuntime None ''third'' ''not a key'' None 0 one_api = (False, one_api)"
proof -
  have a: "addAPIAtRuntime None ''second'' ''AIzaOne'' None 0 one_api = (True, one_api)"
    by (simp add: one_api_eq addAPIAtRuntime_def addAPI_def startsWith_def Let_def cred_def)
  have c: "addAPIAtRuntime None ''third'' ''not a key'' None 0 one_api = (False, one_api)"
    by (simp add: addAPIAtRuntime_def startsWith_def)
  from a replaced_under_same_id c show ?thesis by (simp only: simp_thms)
qed

subsection \<open>Selection\<close>

lemma max_rpm_pos: "0 < max_rpm x"
  by (auto simp: max_rpm_def split: option.splits)

lemma fst_isRateLimited:
  "fst (isRateLimited x now m) =
     (case rateLimitTracker m x of
        None \<Rightarrow> False
      | Some tr \<Rightarrow> \<not> now > resetTime tr \<and> requests tr \<ge> max_rpm (apis_get (apis m) x))"
  by (auto simp: isRateLimited_def split: option.splits)

lemma isRateLimited_stable:
  assumes "isRateLimited a now m = (l, m1)"
  shows "apis m1 = apis m \<and> clients m1 = clients m \<and> timers m1 = timers m \<and>
         (\<forall>x. fst (isRateLimited x now m1) = fst (isRateLimited x now m))"
proof (cases "rateLimitTracker m a")
  case None
  with assms show ?thesis by (simp add: isRateLimited_def)
next
  case (Some tr)
  show ?thesis
  proof (cases "now > resetTime tr")
    case True
    with Some assms have m1: "m1 = m\<lparr>rateLimitTracker :=
        (rateLimitTracker m)(a \<mapsto> \<lparr>requests = 0, resetTime = now + 60 * 1000\<rparr>)\<rparr>"
      by (simp add: isRateLimited_def)
    have "fst (isRateLimited x now m1) = fst (isRateLimited x now m)" for x
      using Some True max_rpm_pos [of "apis_get (apis m) a"]
      by (cases "x = a") (auto simp: m1 fst_isRateLimited split: option.splits)
    then show ?thesis by (simp add: m1)
  next
    case False
    with Some assms show ?thesis by (simp add: isRateLimited_def)
  qed
qed

lemma eligible_spec:
  "eligible now as m = (es, m') \<Longrightarrow>
   es = filter (\<lambda>api. status api = active \<and> \<not> fst (isRateLimited (id' api) now m)) as \<and>
   apis m' = apis m \<and> clients m' = clients m \<and> timers m' = timers m \<and>
   (\<forall>x. fst (isRateLimited x now m') = fst (isRateLimited x now m))"
proof (induction as arbitrary: m es m')
  case Nil
  then show ?case by simp
next
  case (Cons api rest)
  show ?case
  proof (cases "status api = active")
    case False
    with Cons.prems have "eligible now rest m = (es, m')" by simp
    from Cons.IH [OF this] False show ?thesis by simp
  next
    case True
    obtain l m1 where r: "isRateLimited (id' api) now m = (l, m1)"
      by (cases "isRateLimited (id' api) now m")
    obtain es2 m2 where e: "eligible now rest m1 = (es2, m2)"
      by (cases "eligible now rest m1")
    note s1 = isRateLimited_stable [OF r]
    note s2 = Cons.IH [OF e]
    from Cons.prems True r e have res: "es = (if \<not> l then api # es2 else es2)" "m' = m2"
      by simp_all
    have l: "l = fst (isRateLimited (id' api) now m)" using r by simp
    show ?thesis using s1 s2 res True l by simp
  qed
qed

lemma apis_get_id: "apis_get as i = Some x \<Longrightarrow> id' x = i"
  by (auto simp: apis_get_def find_Some_iff)

lemma apis_get_mem: "a \<in> set as \<Longrightarrow> \<exists>x. apis_get as (id' a) = Some x"
  by (cases "apis_get as (id' a)") (auto simp: apis_get_def find_None_iff)

lemma id_apis_get_modify:
  "(\<And>a. id' (f a) = id' a) \<Longrightarrow>
   map_option id' (apis_get (apis_modify i f as) j) = map_option id' (apis_get as j)"
  by (induction as) (auto simp: apis_get_def apis_modify_def)

lemma id_track_config: "id' (track_config feature now a) = id' a"
  by (simp add: track_config_def Let_def)

lemma trackUsage_returns:
  assumes "a \<in> set (apis m)"
  shows "map_option id' (apis_get (apis (trackUsage (id' a) feature now m)) (id' a)) = Some (id' a)"
proof -
  from apis_get_mem [OF assms] obtain x where x: "apis_get (apis m) (id' a) = Some x" by blast
  then have "map_option id' (apis_get (apis_modify (id' a) (track_config feature now) (apis m)) (id' a))
        = Some (id' a)"
    using id_apis_get_modify [of "track_config feature now" "id' a" "apis m" "id' a"]
      apis_get_id [OF x] by (simp add: id_track_config)
  with x show ?thesis by (simp add: trackUsage_def Let_def)
qed

lemma getBestAPI_ids:
  "map_option id' (fst (getBestAPI feature now m))
     = map_option id' (find (\<lambda>api. clients m (id' api) \<noteq> None) (eligible_sorted now m))"
proof -
  obtain es m1 where e: "eligible now (apis m) m = (es, m1)"
    by (cases "eligible now (apis m) m")
  note s = eligible_spec [OF e]
  have es: "sort_key priority es = eligible_sorted now m"
    using s by (simp add: eligible_sorted_def)
  show ?thesis
  proof (cases "find (\<lambda>api. clients m (id' api) \<noteq> None) (eligible_sorted now m)")
    case None
    then show ?thesis using e es s by (simp add: getBestAPI_def)
  next
    case (Some a)
    then have "a \<in> set (eligible_sorted now m)" by (auto simp: find_Some_iff)
    then have "a \<in> set (apis m1)" using s by (auto simp: eligible_sorted_def)
    from trackUsage_returns [OF this, of feature now] Some show ?thesis
      using e es s by (auto simp: getBestAPI_def)
  qed
qed

text \<open>
  C8 (amended). For every state of the manager, feature and time, \<^verbatim>\<open>getBestAPI\<close>
  returns the first credential that has clients among those that are active and not rate
  limited, sorted by ascending priority with ties in registration order; when no
  credential is active and not rate limited (so with an empty registry, or with every
  credential disabled) it returns \<^verbatim>\<open>null\<close>. It is a total function: nothing is thrown.
\<close>

theorem getBestAPI_first_with_client:
  "map_option id' (fst (getBestAPI feature now m))
     = map_option id' (find (\<lambda>api. clients m (id' api) \<noteq> None) (eligible_sorted now m)) \<and>
   (eligible_sorted now m = [] \<longrightarrow> fst (getBestAPI feature now m) = None)"
proof -
  have a: "map_option id' (fst (getBestAPI feature now m))
     = map_option id' (find (\<lambda>api. clients m (id' api) \<noteq> None) (eligible_sorted now m))"
    by (rule getBestAPI_ids)
  then have "eligible_sorted now m = [] \<Longrightarrow> fst (getBestAPI feature now m) = None"
    by simp
  with a show ?thesis by blast
qed

theorem getBestAPI_first_with_client_witness:
  "eligible_sorted 0 all_disabled = [] \<and> fst (getBestAPI chat 0 all_disabled) = None \<and>
   eligible_sorted 0 new_manager = [] \<and> fst (getBestAPI chat 0 new_manager) = None"
proof -
  have a: "eligible_sorted 0 all_disabled = []"
    by (simp add: all_disabled_def one_api_eq eligible_sorted_def updateAPIStatus_def
          apis_modify_def cred_def)
  have b: "eligible_sorted 0 new_manager = []"
    by (simp add: eligible_sorted_def new_manager_def)
  show ?thesis
    using getBestAPI_first_with_client [of chat 0 all_disabled]
      getBestAPI_first_with_client [of chat 0 new_manager] a b by simp
qed

text \<open>
  As C8 is stated, with the first of the sorted credentials returned, it fails: a
  credential whose clients could not be built, once set active, is first in the order and
  is passed over.
\<close>

theorem getBestAPI_skips_clientless_counterexample:
  "map id' (eligible_sorted 0 no_client_first) = [''primary'', ''api_2''] \<and>
   map_option id' (fst (getBestAPI chat 0 no_client_first)) = Some ''api_2''"
  by (simp add: no_client_first_def eligible_sorted_def mgr_defs)

subsection \<open>Rate limiting\<close>

lemma apis_get_modify:
  "(\<And>a. id' (f a) = id' a) \<Longrightarrow>
   apis_get (apis_modify i f as) j
     = map_option (\<lambda>a. if id' a = i then f a else a) (apis_get as j)"
  by (induction as) (auto simp: apis_get_def apis_modify_def)

lemma max_rpm_trackUsage:
  "max_rpm (apis_get (apis (trackUsage i feature now m)) j) = max_rpm (apis_get (apis m) j)"
proof (cases "apis_get (apis m) i")
  case None
  then show ?thesis by (simp add: trackUsage_def)
next
  case (Some a)
  have "apis_get (apis_modify i (track_config feature now) (apis m)) j
     = map_option (\<lambda>a. if id' a = i then track_config feature now a else a) (apis_get (apis m) j)"
    by (rule apis_get_modify) (simp add: id_track_config)
  then show ?thesis using Some
    by (cases "apis_get (apis m) j")
       (simp_all add: trackUsage_def Let_def max_rpm_def track_config_def)
qed

lemma apis_get_trackUsage_None:
  "apis_get (apis (trackUsage i feature now m)) j = None \<longleftrightarrow> apis_get (apis m) j = None"
proof (cases "apis_get (apis m) i")
  case None
  then show ?thesis by (simp add: trackUsage_def)
next
  case (Some a)
  have "apis_get (apis_modify i (track_config feature now) (apis m)) j
     = map_option (\<lambda>a. if id' a = i then track_config feature now a else a) (apis_get (apis m) j)"
    by (rule apis_get_modify) (simp add: id_track_config)
  then show ?thesis using Some by (simp add: trackUsage_def Let_def)
qed

lemma tracker_trackUsage_open:
  assumes "apis_get (apis m) i \<noteq> None" "rateLimitTracker m i = Some tr" "now \<le> resetTime tr"
  shows "rateLimitTracker (trackUsage i feature now m) i = Some (tr\<lparr>requests := requests tr + 1\<rparr>)"
  using assms by (auto simp: trackUsage_def Let_def)

lemma tracker_trackUsage_fresh:
  assumes "apis_get (apis m) i \<noteq> None"
    "case rateLimitTracker m i of None \<Rightarrow> True | Some tr \<Rightarrow> now > resetTime tr"
  shows "rateLimitTracker (trackUsage i feature now m) i
           = Some \<lparr>requests = 1, resetTime = now + 60000\<rparr>"
  using assms by (auto simp: trackUsage_def Let_def split: option.splits)

lemma fold_trackUsage:
  assumes "apis_get (apis m) i \<noteq> None" "rateLimitTracker m i = Some \<lparr>requests = k, resetTime = R\<rparr>"
    "\<forall>t\<in>set ts. t \<le> R"
  shows "rateLimitTracker (fold (trackUsage i feature) ts m) i
            = Some \<lparr>requests = k + length ts, resetTime = R\<rparr> \<and>
         max_rpm (apis_get (apis (fold (trackUsage i feature) ts m)) i) = max_rpm (apis_get (apis m) i)"
  using assms
proof (induction ts arbitrary: m k)
  case Nil
  then show ?case by simp
next
  case (Cons t ts)
  let ?m1 = "trackUsage i feature t m"
  have a: "apis_get (apis ?m1) i \<noteq> None"
    using Cons.prems(1) by (simp add: apis_get_trackUsage_None)
  have b: "rateLimitTracker ?m1 i = Some \<lparr>requests = Suc k, resetTime = R\<rparr>"
    using tracker_trackUsage_open [OF Cons.prems(1,2), of t feature] Cons.prems(3) by simp
  have c: "\<forall>t\<in>set ts. t \<le> R" using Cons.prems(3) by simp
  from Cons.IH [OF a b c] show ?case by (simp add: max_rpm_trackUsage)
qed

text \<open>
  C7. For a credential with \<open>maxRequestsPerMinute = N\<close>, \<open>N \<ge> 1\<close>: before the first
  use of a window \<^verbatim>\<open>isRateLimited\<close> is false; after \<open>k \<ge> 1\<close> calls of
  \<^verbatim>\<open>trackUsage\<close> within one window (the first at \<open>t0\<close> opens it, the others no later
  than \<open>t0 + 60 s\<close>) \<^verbatim>\<open>isRateLimited\<close>, asked within the window, is true exactly when
  \<open>N \<le> k\<close>: true after \<open>N\<close> calls, false after \<open>N - 1\<close>; asked after the reset time
  it is false and has reset the window to count 0 and reset time now + 60 s.
\<close>

theorem rate_limit_window:
  assumes "apis_get (apis m) i = Some a" and "maxRequestsPerMinute a = Some N" and "1 \<le> N"
    and "case rateLimitTracker m i of None \<Rightarrow> True | Some tr \<Rightarrow> t0 > resetTime tr"
    and "\<forall>t\<in>set ts. t \<le> t0 + 60000"
    and "m' = fold (trackUsage i feature) (t0 # ts) m"
    and "t \<le> t0 + 60000" and "t' > t0 + 60000"
  shows "fst (isRateLimited i t0 m) = False \<and>
         fst (isRateLimited i t m') = (N \<le> length (t0 # ts)) \<and>
         isRateLimited i t' m' =
           (False, m'\<lparr>rateLimitTracker :=
                       (rateLimitTracker m')(i \<mapsto> \<lparr>requests = 0, resetTime = t' + 60000\<rparr>)\<rparr>)"
proof -
  have ex: "apis_get (apis m) i \<noteq> None" using assms(1) by simp
  let ?m1 = "trackUsage i feature t0 m"
  have a: "apis_get (apis ?m1) i \<noteq> None" using ex by (simp add: apis_get_trackUsage_None)
  have b: "rateLimitTracker ?m1 i = Some \<lparr>requests = 1, resetTime = t0 + 60000\<rparr>"
    using ex assms(4) by (rule tracker_trackUsage_fresh)
  from fold_trackUsage [OF a b assms(5), of feature]
  have tr: "rateLimitTracker m' i = Some \<lparr>requests = 1 + length ts, resetTime = t0 + 60000\<rparr>"
    and mx: "max_rpm (apis_get (apis m') i) = max_rpm (apis_get (apis m) i)"
    by (simp_all add: assms(6) max_rpm_trackUsage)
  have n: "max_rpm (apis_get (apis m) i) = N"
    using assms(1,2,3) by (simp add: max_rpm_def)
  have c1: "fst (isRateLimited i t0 m) = False"
    using assms(4) by (auto simp: fst_isRateLimited split: option.splits)
  have c2: "fst (isRateLimited i t m') = (N \<le> length (t0 # ts))"
    using tr mx n assms(7) by (simp add: fst_isRateLimited)
  have c3: "isRateLimited i t' m' =
           (False, m'\<lparr>rateLimitTracker :=
                       (rateLimitTracker m')(i \<mapsto> \<lparr>requests = 0, resetTime = t' + 60000\<rparr>)\<rparr>)"
    using tr assms(8) by (simp add: isRateLimited_def)
  from c1 c2 c3 show ?thesis by simp
qed

theorem rate_limit_window_witness:
  "fst (isRateLimited ''primary'' 0 two_per_minute) = False \<and>
   fst (isRateLimited ''primary'' 2000 (fold (trackUsage ''primary'' chat) [0] two_per_minute)) = False \<and>
   fst (isRateLimited ''primary'' 2000 (fold (trackUsage ''primary'' chat) [0, 1000] two_per_minute)) = True \<and>
   fst (isRateLimited ''primary'' 60001 (fold (trackUsage ''primary'' chat) [0, 1000] two_per_minute)) = False \<and>
   rateLimitTracker (snd (isRateLimited ''primary'' 60001
        (fold (trackUsage ''primary'' chat) [0, 1000] two_per_minute))) ''primary''
     = Some \<lparr>requests = 0, resetTime = 120001\<rparr>"
proof -
  let ?a = "(cred ''primary'' ''AIzaOne'' 1)\<lparr>maxRequestsPerMinute := Some 2\<rparr>"
  have h1: "apis_get (apis two_per_minute) ''primary'' = Some ?a"
    by (simp add: two_per_minute_def addAPI_def new_manager_def Let_def apis_get_def cred_def)
  have h2: "maxRequestsPerMinute ?a = Some 2" by simp
  have h3: "(1::nat) \<le> 2" by simp
  have h4: "case rateLimitTracker two_per_minute ''primary'' of None \<Rightarrow> True
            | Some tr \<Rightarrow> 0 > resetTime tr"
    by (simp add: two_per_minute_def addAPI_def new_manager_def Let_def)
  have h5: "\<forall>t\<in>set [1000::int]. t \<le> 0 + 60000" by simp
  have h5': "\<forall>t\<in>set ([]::int list). t \<le> 0 + 60000" by simp
  have h7: "(2000::int) \<le> 0 + 60000" and h8: "(60001::int) > 0 + 60000" by simp_all
  show ?thesis
    using rate_limit_window [OF h1 h2 h3 h4 h5 refl h7 h8, of chat]
      rate_limit_window [OF h1 h2 h3 h4 h5' refl h7 h8, of chat]
    by simp
qed

subsection \<open>Failure and reactivation\<close>

lemma id_entry_fire: "id' (entry_fire t x) = id' x"
  by (simp add: entry_fire_def split: timer_kind.splits)

lemma apis_fire: "apis (fire t m) = map (entry_fire t) (apis m)"
  by (cases "kind t") (simp_all add: fire_def apis_modify_def entry_fire_def)

lemma apis_get_map:
  "(\<And>a. id' (f a) = id' a) \<Longrightarrow> apis_get (map f as) j = map_option f (apis_get as j)"
  by (induction as) (auto simp: apis_get_def)

lemma apis_get_fold_fire:
  "apis_get (apis (fold fire ts m)) i = map_option (fold entry_fire ts) (apis_get (apis m) i)"
proof (induction ts arbitrary: m)
  case Nil
  then show ?case by (simp add: option.map_ident)
next
  case (Cons t ts)
  have "apis_get (apis (fire t m)) i = map_option (entry_fire t) (apis_get (apis m) i)"
    by (simp add: apis_fire apis_get_map id_entry_fire)
  then show ?case by (simp add: Cons.IH option.map_comp comp_def)
qed

lemma fold_entry_fire_filter:
  "id' x = i \<Longrightarrow> fold entry_fire ts x = fold entry_fire (filter (\<lambda>t. target t = i) ts) x"
proof (induction ts arbitrary: x)
  case Nil
  then show ?case by simp
next
  case (Cons t ts)
  show ?case
  proof (cases "target t = i")
    case True
    then show ?thesis using Cons.IH [of "entry_fire t x"] Cons.prems by (simp add: id_entry_fire)
  next
    case False
    then have "entry_fire t x = x" using Cons.prems by (simp add: entry_fire_def)
    then show ?thesis using False Cons.IH [OF Cons.prems] by simp
  qed
qed

lemma run_timers_entry:
  assumes "apis_get (apis m) i = Some x"
  shows "apis_get (apis (run_timers now m)) i =
     Some (fold entry_fire
             (sort_key due (filter (\<lambda>t. target t = i \<and> due t \<le> now) (timers m))) x)"
proof -
  have ix: "id' x = i" using assms by (rule apis_get_id)
  have "apis_get (apis (run_timers now m)) i
      = Some (fold entry_fire (sort_key due (filter (\<lambda>t. due t \<le> now) (timers m))) x)"
    using assms by (simp add: run_timers_def apis_get_fold_fire)
  also have "fold entry_fire (sort_key due (filter (\<lambda>t. due t \<le> now) (timers m))) x
      = fold entry_fire (filter (\<lambda>t. target t = i)
           (sort_key due (filter (\<lambda>t. due t \<le> now) (timers m)))) x"
    using ix by (rule fold_entry_fire_filter)
  also have "filter (\<lambda>t. target t = i) (sort_key due (filter (\<lambda>t. due t \<le> now) (timers m)))
      = sort_key due (filter (\<lambda>t. target t = i \<and> due t \<le> now) (timers m))"
    by (simp add: filter_sort conj_commute)
  finally show ?thesis .
qed

lemma handleAPIFailure_entry:
  assumes "apis_get (apis m) i = Some a"
  shows "apis_get (apis (handleAPIFailure i e now m)) i =
     Some (a\<lparr>failureCount := failureCount a + 1, lastError := Some (error_text e),
             status := (if quota_error (errorMessage e) then quota_exceeded else failed)\<rparr>)"
proof -
  have ia: "id' a = i" using assms by (rule apis_get_id)
  show ?thesis using assms ia
    by (simp add: handleAPIFailure_def Let_def apis_get_modify)
qed

lemma handleAPIFailure_timers:
  assumes "apis_get (apis m) i = Some a"
  shows "timers (handleAPIFailure i e now m) = timers m @
     [if quota_error (errorMessage e)
      then \<lparr>due = now + 3600000, target = i, kind = QuotaReset\<rparr>
      else \<lparr>due = now + 300000, target = i, kind = FailedReset\<rparr>]"
  using assms by (simp add: handleAPIFailure_def Let_def)

lemma quota_err_is: "quota_error (errorMessage quota_err)"
  by (simp add: quota_err_def errorMessage_def quota_error_def startsWith_def)

lemma net_err_is: "\<not> quota_error (errorMessage net_err)"
  by (simp add: net_err_def errorMessage_def quota_error_def startsWith_def)

lemma fold_entry_fire_active:
  "status x = active \<Longrightarrow> fold entry_fire ts x = x"
proof (induction ts)
  case Nil
  then show ?case by simp
next
  case (Cons t ts)
  have "entry_fire t x = x"
    using Cons.prems by (simp add: entry_fire_def split: timer_kind.splits)
  with Cons show ?case by simp
qed

lemma fold_entry_fire_quota:
  assumes "status x = quota_exceeded"
    and "t \<in> set ts" and "target t = id' x" and "kind t = QuotaReset"
  shows "fold entry_fire ts x = x\<lparr>status := active, failureCount := 0\<rparr>"
  using assms(2)
proof (induction ts)
  case Nil
  then show ?case by simp
next
  case (Cons u us)
  show ?case
  proof (cases "target u = id' x \<and> kind u = QuotaReset")
    case True
    then have "entry_fire u x = x\<lparr>status := active, failureCount := 0\<rparr>"
      using assms(1) by (simp add: entry_fire_def)
    then show ?thesis by (simp add: fold_entry_fire_active)
  next
    case False
    then have e: "entry_fire u x = x"
      using assms(1) by (cases "kind u") (auto simp: entry_fire_def)
    from False assms(3,4) have "u \<noteq> t" by auto
    with Cons.prems have "t \<in> set us" by simp
    with Cons.IH e show ?thesis by simp
  qed
qed

lemma fold_entry_fire_failed:
  assumes "status x = failed"
    and "t \<in> set ts" and "target t = id' x" and "kind t = FailedReset"
  shows "fold entry_fire ts x = x\<lparr>status := active\<rparr>"
  using assms(2)
proof (induction ts)
  case Nil
  then show ?case by simp
next
  case (Cons u us)
  show ?case
  proof (cases "target u = id' x \<and> kind u = FailedReset")
    case True
    then have "entry_fire u x = x\<lparr>status := active\<rparr>"
      using assms(1) by (simp add: entry_fire_def)
    then show ?thesis by (simp add: fold_entry_fire_active)
  next
    case False
    then have e: "entry_fire u x = x"
      using assms(1) by (cases "kind u") (auto simp: entry_fire_def)
    from False assms(3,4) have "u \<noteq> t" by auto
    with Cons.prems have "t \<in> set us" by simp
    with Cons.IH e show ?thesis by simp
  qed
qed

lemma new_timer_due:
  assumes "apis_get (apis m) i = Some a"
  shows "(if quota_error (errorMessage e)
          then \<lparr>due = now + 3600000, target = i, kind = QuotaReset\<rparr>
          else \<lparr>due = now + 300000, target = i, kind = FailedReset\<rparr>)
         \<in> set (sort_key due (filter (\<lambda>t. due t \<le> now + reactivation_delay e)
                                 (timers (handleAPIFailure i e now m))))"
  by (simp add: handleAPIFailure_timers [OF assms] reactivation_delay_def)

text \<open>
  C5 (amended). For every credential, when the timer that \<^verbatim>\<open>handleAPIFailure\<close> sets
  has fired the status is back to \<open>active\<close>; for a credential reactivated from
  \<open>quota_exceeded\<close> only (not from \<open>failed\<close>) the failure counter is also reset to
  zero; reactivation from \<open>failed\<close> leaves the counter as the failure left it.
\<close>

theorem timed_reactivation:
  assumes "apis_get (apis m) i = Some a"
  shows "map_option (\<lambda>x. (status x, failureCount x))
           (apis_get (apis (run_timers (now + reactivation_delay e) (handleAPIFailure i e now m))) i)
         = Some (active, if quota_error (errorMessage e) then 0 else failureCount a + 1)"
proof -
  let ?m1 = "handleAPIFailure i e now m"
  let ?ts = "sort_key due (filter (\<lambda>t. due t \<le> now + reactivation_delay e) (timers ?m1))"
  let ?x = "a\<lparr>failureCount := failureCount a + 1, lastError := Some (error_text e),
             status := (if quota_error (errorMessage e) then quota_exceeded else failed)\<rparr>"
  have ia: "id' a = i" using assms by (rule apis_get_id)
  have x: "apis_get (apis ?m1) i = Some ?x" using assms by (rule handleAPIFailure_entry)
  have g: "apis_get (apis (run_timers (now + reactivation_delay e) ?m1)) i
             = Some (fold entry_fire ?ts ?x)"
    using x by (simp add: run_timers_def apis_get_fold_fire)
  show ?thesis
  proof (cases "quota_error (errorMessage e)")
    case True
    have mem: "\<lparr>due = now + 3600000, target = i, kind = QuotaReset\<rparr> \<in> set ?ts"
      using new_timer_due [OF assms, of e now] True by simp
    have "fold entry_fire ?ts ?x = ?x\<lparr>status := active, failureCount := 0\<rparr>"
      by (rule fold_entry_fire_quota [OF _ mem]) (simp_all add: True ia)
    with g True show ?thesis by simp
  next
    case False
    have mem: "\<lparr>due = now + 300000, target = i, kind = FailedReset\<rparr> \<in> set ?ts"
      using new_timer_due [OF assms, of e now] False by simp
    have "fold entry_fire ?ts ?x = ?x\<lparr>status := active\<rparr>"
      by (rule fold_entry_fire_failed [OF _ mem]) (simp_all add: False ia)
    with g False show ?thesis by simp
  qed
qed

theorem timed_reactivation_witness:
  "apis_get (apis one_api) ''primary'' = Some (cred ''primary'' ''AIzaOne'' 1) \<and>
   timers one_api = [] \<and>
   map_option (\<lambda>x. (status x, failureCount x))
     (apis_get (apis (run_timers 3600000 (handleAPIFailure ''primary'' quota_err 0 one_api))) ''primary'')
     = Some (active, 0) \<and>
   map_option (\<lambda>x. (status x, failureCount x))
     (apis_get (apis (run_timers 300000 (handleAPIFailure ''primary'' net_err 0 one_api))) ''primary'')
     = Some (active, 1)"
proof -
  have h1: "apis_get (apis one_api) ''primary'' = Some (cred ''primary'' ''AIzaOne'' 1)"
    by (simp add: one_api_eq apis_get_def cred_def)
  have f: "failureCount (cred ''primary'' ''AIzaOne'' 1) = 0" by (simp add: cred_def)
  show ?thesis
    using timed_reactivation [OF h1, of 0 quota_err] timed_reactivation [OF h1, of 0 net_err]
      h1 quota_err_is net_err_is f
    by (simp add: reactivation_delay_def one_api_eq)
qed

text \<open>
  As C5 is stated, with the counter reset for \<open>failed\<close> only, it fails: after one
  failure that is not a quota error and its reactivation the counter is 1, and after one
  quota error and its reactivation it is 0.
\<close>

theorem failed_reactivation_keeps_count_counterexample:
  "map (\<lambda>x. (status x, failureCount x))
     (apis (run_timers 300000 (handleAPIFailure ''primary'' net_err 0 one_api))) = [(active, 1)] \<and>
   map (\<lambda>x. (status x, failureCount x))
     (apis (run_timers 3600000 (handleAPIFailure ''primary'' quota_err 0 one_api))) = [(active, 0)]"
  using quota_err_is net_err_is
  by (simp add: one_api_eq handleAPIFailure_def run_timers_def fire_def apis_get_def
        apis_modify_def cred_def Let_def)

lemma apis_fold_fire: "apis (fold fire ts m) = map (fold entry_fire ts) (apis m)"
proof (induction ts arbitrary: m)
  case Nil
  then show ?case by simp
next
  case (Cons t ts)
  then show ?case by (simp add: apis_fire)
qed

lemma id_fold_entry_fire: "id' (fold entry_fire ts y) = id' y"
  by (induction ts arbitrary: y) (simp_all add: id_entry_fire)

lemma fold_entry_fire_other:
  assumes "\<forall>t\<in>set ts. target t \<noteq> id' x"
  shows "fold entry_fire ts x = x"
proof -
  have "filter (\<lambda>t. target t = id' x) ts = []"
    using assms by (simp add: filter_empty_conv)
  with fold_entry_fire_filter [of x "id' x" ts] show ?thesis by simp
qed

lemma run_timers_member:
  assumes "api \<in> set (apis (run_timers now m))"
  shows "\<exists>x\<in>set (apis m).
           api = fold entry_fire (sort_key due (filter (\<lambda>t. due t \<le> now) (timers m))) x"
proof -
  have "apis (run_timers now m)
      = map (fold entry_fire (sort_key due (filter (\<lambda>t. due t \<le> now) (timers m)))) (apis m)"
    by (simp add: run_timers_def apis_fold_fire)
  with assms show ?thesis by auto
qed

lemma getBestAPI_Some_active:
  assumes "map_option id' (fst (getBestAPI feature now m)) = Some i"
  shows "\<exists>api\<in>set (apis m). id' api = i \<and> status api = active"
proof -
  from assms obtain api where
    f: "find (\<lambda>api. clients m (id' api) \<noteq> None) (eligible_sorted now m) = Some api"
    and ia: "id' api = i"
    unfolding getBestAPI_ids by (cases "find (\<lambda>api. clients m (id' api) \<noteq> None) (eligible_sorted now m)") auto
  from f have "api \<in> set (eligible_sorted now m)"
    unfolding find_Some_iff by (metis nth_mem)
  then have "api \<in> set (apis m)" "status api = active"
    by (simp_all add: eligible_sorted_def)
  with ia show ?thesis by blast
qed

lemma handleAPIFailure_status:
  assumes "apis_get (apis m) i = Some a" and "x \<in> set (apis (handleAPIFailure i e now m))"
    and "id' x = i"
  shows "status x = (if quota_error (errorMessage e) then quota_exceeded else failed)"
proof -
  let ?S = "if quota_error (errorMessage e) then quota_exceeded else failed"
  have "apis (handleAPIFailure i e now m)
     = map (\<lambda>y. if id' y = i
                  then y\<lparr>failureCount := failureCount y + 1, lastError := Some (error_text e),
                         status := ?S\<rparr>
                  else y) (apis m)"
    using assms(1) by (simp add: handleAPIFailure_def Let_def apis_modify_def)
  with assms(2) obtain y where "y \<in> set (apis m)"
    and "x = (if id' y = i
              then y\<lparr>failureCount := failureCount y + 1, lastError := Some (error_text e),
                     status := ?S\<rparr>
              else y)"
    by auto
  with assms(3) show ?thesis by (cases "id' y = i") simp_all
qed

lemma due_timers_other:
  assumes "apis_get (apis m) i = Some a" and "\<forall>t\<in>set (timers m). target t \<noteq> i"
    and "now' < now + reactivation_delay e"
  shows "\<forall>t\<in>set (sort_key due (filter (\<lambda>t. due t \<le> now')
                     (timers (handleAPIFailure i e now m)))). target t \<noteq> i"
proof -
  have "timers (handleAPIFailure i e now m) = timers m @
     [if quota_error (errorMessage e)
      then \<lparr>due = now + 3600000, target = i, kind = QuotaReset\<rparr>
      else \<lparr>due = now + 300000, target = i, kind = FailedReset\<rparr>]"
    using assms(1) by (rule handleAPIFailure_timers)
  moreover have "\<not> due (if quota_error (errorMessage e)
      then \<lparr>due = now + 3600000, target = i, kind = QuotaReset\<rparr>
      else \<lparr>due = now + 300000, target = i, kind = FailedReset\<rparr>) \<le> now'"
    using assms(3) by (auto simp: reactivation_delay_def split: if_splits)
  ultimately have "filter (\<lambda>t. due t \<le> now') (timers (handleAPIFailure i e now m))
      = filter (\<lambda>t. due t \<le> now') (timers m)"
    by simp
  with assms(2) show ?thesis by simp
qed

text \<open>
  While no earlier reactivation of the credential is pending, a credential whose failure
  was reported is not returned by \<^verbatim>\<open>getBestAPI\<close> before the delay of its timer has
  passed.
\<close>

lemma quarantined_until_due:
  assumes "apis_get (apis m) i = Some a" and "\<forall>t\<in>set (timers m). target t \<noteq> i"
    and "now' < now + reactivation_delay e"
  shows "map_option id' (fst (getBestAPI feature now'
            (run_timers now' (handleAPIFailure i e now m)))) \<noteq> Some i"
proof
  let ?m1 = "handleAPIFailure i e now m"
  let ?due = "sort_key due (filter (\<lambda>t. due t \<le> now') (timers ?m1))"
  assume "map_option id' (fst (getBestAPI feature now' (run_timers now' ?m1))) = Some i"
  from getBestAPI_Some_active [OF this] obtain api where
    mem: "api \<in> set (apis (run_timers now' ?m1))" and ia: "id' api = i"
    and act: "status api = active"
    by blast
  from run_timers_member [OF mem] obtain x where
    x: "x \<in> set (apis ?m1)" and ax: "api = fold entry_fire ?due x"
    by blast
  have idx: "id' x = i" using ax ia by (simp add: id_fold_entry_fire)
  have "\<forall>t\<in>set ?due. target t \<noteq> id' x"
    using due_timers_other [OF assms] idx by simp
  then have "fold entry_fire ?due x = x" by (rule fold_entry_fire_other)
  with ax have "api = x" by simp
  with handleAPIFailure_status [OF assms(1) x idx] act show False
    by (simp split: if_splits)
qed

text \<open>
  C4. After \<^verbatim>\<open>handleAPIFailure\<close> with a quota error the status is \<open>quota_exceeded\<close>,
  but the credential can come back before an hour has passed: the timer of an earlier
  failure is still pending and its callback finds the status it looks for. Two quota
  errors reported at 0 s and 1 s: at 3600 s, 3599 s after the second report,
  \<^verbatim>\<open>getBestAPI\<close> returns the credential. The same with two other errors and the
  five-minute timer: returned at 300 s, 299 s after the second report.
\<close>

theorem stale_timer_reactivates_early:
  "map status (apis (handleAPIFailure ''primary'' quota_err 1000
                       (handleAPIFailure ''primary'' quota_err 0 one_api))) = [quota_exceeded] \<and>
   map_option id' (fst (getBestAPI chat 3600000
      (run_timers 3600000
         (handleAPIFailure ''primary'' quota_err 1000
            (handleAPIFailure ''primary'' quota_err 0 one_api))))) = Some ''primary'' \<and>
   map_option id' (fst (getBestAPI chat 300000
      (run_timers 300000
         (handleAPIFailure ''primary'' net_err 1000
            (handleAPIFailure ''primary'' net_err 0 one_api))))) = Some ''primary''"
  using quota_err_is net_err_is
  by (simp add: one_api_eq handleAPIFailure_def run_timers_def fire_def apis_get_def
        apis_modify_def cred_def Let_def getBestAPI_def isRateLimited_def trackUsage_def
        track_config_def)

section \<open>Properties of the response cache\<close>

lemma normalized_raw: "normalized phrasing_raw = [116, 111, 32, 110, 104, 32, 99, 111, 110, 32, 109, 111]"
  by (simp add: normalized_def phrasing_raw_def toLowerCase_def lower_unit_def trim_def
        isWhiteSpace_def isWordChar_def strip_def)

lemma normalized_plain: "normalized phrasing_plain = [116, 111, 32, 110, 104, 32, 99, 111, 110, 32, 109, 111]"
  by (simp add: normalized_def phrasing_plain_def toLowerCase_def lower_unit_def trim_def
        isWhiteSpace_def isWordChar_def strip_def)

lemma same_hash: "generateQueryHash phrasing_raw = generateQueryHash phrasing_plain"
  by (simp add: generateQueryHash_def normalized_raw normalized_plain)

lemma map_of_delete_other: "k \<noteq> k' \<Longrightarrow> map_of (AList.delete k' al) k = map_of al k"
  by (simp add: delete_conv')

lemma update_new_key:
  "k \<notin> fst ` set al \<Longrightarrow> AList.update k v al = al @ [(k, v)]"
  by (induction al) auto

lemma length_update_old:
  "k \<in> fst ` set al \<Longrightarrow> length (AList.update k v al) = length al"
  by (induction al) auto

lemma put_then_lookup:
  assumes "length cache \<le> 100"
  shows "map_of (setCachedResponse q payload ty now cache) (ty, generateQueryHash q)
     = Some \<lparr>content = payload, timestamp = now, expiryTime = now + CACHE_DURATION,
             queryHash = generateQueryHash q\<rparr>"
proof -
  let ?k = "(ty, generateQueryHash q)"
  let ?v = "\<lparr>content = payload, timestamp = now, expiryTime = now + CACHE_DURATION,
             queryHash = generateQueryHash q\<rparr>"
  let ?c1 = "AList.update ?k ?v cache"
  have m: "map_of ?c1 ?k = Some ?v" by (simp add: update_conv')
  show ?thesis
  proof (cases "length ?c1 > 100")
    case False
    with m show ?thesis by (simp add: setCachedResponse_def Let_def)
  next
    case True
    have new: "?k \<notin> fst ` set cache"
    proof
      assume "?k \<in> fst ` set cache"
      then have "length ?c1 = length cache" by (rule length_update_old)
      with True assms show False by simp
    qed
    then have c1: "?c1 = cache @ [(?k, ?v)]" by (rule update_new_key)
    from True c1 assms have "cache \<noteq> []" by auto
    then obtain k0 v0 rest where cs: "cache = (k0, v0) # rest" by (cases cache) auto
    with new have ne: "?k \<noteq> k0" by auto
    have "setCachedResponse q payload ty now cache = AList.delete k0 ?c1"
      using True cs c1 by (simp add: setCachedResponse_def Let_def)
    then show ?thesis using m ne by (simp add: map_of_delete_other del: update_conv')
  qed
qed

text \<open>
  The cache never holds more than 100 entries after a \<^verbatim>\<open>setCachedResponse\<close>, and
  \<^verbatim>\<open>getCachedResponse\<close> adds none.
\<close>

lemma length_delete_head: "length (AList.delete k ((k, v) # al)) \<le> length al"
  by (simp add: AList.delete_eq)

lemma length_setCachedResponse:
  assumes "length cache \<le> 100"
  shows "length (setCachedResponse q payload ty now cache) \<le> 100"
proof -
  let ?k = "(ty, generateQueryHash q)"
  let ?v = "\<lparr>content = payload, timestamp = now, expiryTime = now + CACHE_DURATION,
             queryHash = generateQueryHash q\<rparr>"
  let ?c1 = "AList.update ?k ?v cache"
  have l: "length ?c1 \<le> Suc (length cache)"
    by (induction cache) auto
  show ?thesis
  proof (cases "length ?c1 > 100")
    case False
    then show ?thesis by (simp add: setCachedResponse_def Let_def)
  next
    case True
    then obtain k0 v0 rest where c: "?c1 = (k0, v0) # rest" by (cases ?c1) auto
    have "length (AList.delete k0 ((k0, v0) # rest)) \<le> length rest"
      by (rule length_delete_head)
    moreover have "length rest \<le> 100" using l c assms by simp
    ultimately show ?thesis using True c by (simp add: setCachedResponse_def Let_def)
  qed
qed

lemma length_getCachedResponse:
  "length (snd (getCachedResponse q ty now cache)) \<le> length cache"
  by (auto simp: getCachedResponse_def Let_def AList.delete_eq split: option.splits)

text \<open>
  C9. For the same type, the two phrasings of the example (\<open>phrasing_raw\<close>: leading
  blanks, capitals, a run of blanks and a final exclamation mark; \<open>phrasing_plain\<close>:
  none of these) have the same hash, so after one \<^verbatim>\<open>setCachedResponse\<close> under
  either phrasing (on a cache within its bound of 100 entries),
  \<^verbatim>\<open>getCachedResponse\<close> under the other, before the entry expires, returns the stored
  payload.
\<close>

theorem normalized_phrasings_share_entry:
  assumes "length cache \<le> 100" and "now' < now + CACHE_DURATION"
  shows "fst (getCachedResponse phrasing_plain ty now'
                (setCachedResponse phrasing_raw payload ty now cache)) = Some payload \<and>
         fst (getCachedResponse phrasing_raw ty now'
                (setCachedResponse phrasing_plain payload ty now cache)) = Some payload \<and>
         generateQueryHash phrasing_raw = generateQueryHash phrasing_plain"
  using put_then_lookup [OF assms(1), of phrasing_raw payload ty now]
    put_then_lookup [OF assms(1), of phrasing_plain payload ty now] assms(2)
  by (simp add: getCachedResponse_def Let_def same_hash)

theorem normalized_phrasings_share_entry_witness:
  "length ([] :: responseCache) \<le> 100 \<and> (1000::int) < 0 + CACHE_DURATION \<and>
   fst (getCachedResponse phrasing_plain T_chat 1000
          (setCachedResponse phrasing_raw [109, 101, 111, 119] T_chat 0 []))
     = Some [109, 101, 111, 119] \<and>
   fst (getCachedResponse phrasing_raw T_chat 1000
          (setCachedResponse phrasing_plain [109, 101, 111, 119] T_chat 0 []))
     = Some [109, 101, 111, 119]"
proof -
  have h1: "length ([] :: responseCache) \<le> 100" by simp
  have h2: "(1000::int) < 0 + CACHE_DURATION" by (simp add: CACHE_DURATION_def)
  show ?thesis
    using normalized_phrasings_share_entry [OF h1 h2, of T_chat "[109, 101, 111, 119]"] h1 h2
    by simp
qed

end
